theory Spec2Isabelle
  imports Complex_Main "HOL-Library.AList" "HOL-Library.Char_ord" "HOL-Library.List_Lexorder"
begin

section \<open>Python values and exceptions\<close>

text \<open>
  The server is a Python program. Exceptions are values: a pair of the exception class
  (as far as the handlers of the program tell classes apart) and the text of
  \<^verbatim>\<open>str(e)\<close>. Every class below derives from \<^verbatim>\<open>Exception\<close>, and \<open>Exception\<close>
  itself stands for it and for every subclass not listed; a subclass of
  \<^verbatim>\<open>ValueError\<close> (such as \<^verbatim>\<open>json.JSONDecodeError\<close>) is recorded as \<open>ValueError\<close>,
  since \<^verbatim>\<open>except ValueError\<close> catches it. Strings are byte strings; the patterns of
  the program only name ASCII characters.
\<close>

datatype exc_class =
  Exception | ValueError | KeyError | IndexError | TypeError | AttributeError | OverflowError

type_synonym py_error = "exc_class \<times> string"

datatype pyfloat = Finite real | PosInf | NegInf | NaN

datatype pyval =
    PNone
  | PBool bool
  | PInt int
  | PFloat pyfloat
  | PStr string
  | PList "pyval list"
  | PDict "(string \<times> pyval) list"

section \<open>Video identifier extraction\<close>

text \<open>
  \<^verbatim>\<open>_extract_video_id\<close> runs \<^verbatim>\<open>re.search\<close> with two patterns, in order. The
  character class \<^verbatim>\<open>[a-zA-Z0-9_-]\<close>:
\<close>

definition idchar :: "char \<Rightarrow> bool" where
  "idchar c \<longleftrightarrow>
     c \<in> set ''abcdefghijklmnopqrstuvwxyzABCDEFGHIJKLMNOPQRSTUVWXYZ0123456789_-''"

text \<open>A literal of a pattern matches at the head of the text.\<close>

definition starts_with :: "string \<Rightarrow> string \<Rightarrow> bool" where
  "starts_with p s \<longleftrightarrow> take (length p) s = p"

text \<open>The group \<^verbatim>\<open>([a-zA-Z0-9_-]{11})\<close> at the head of the text.\<close>

definition group11 :: "string \<Rightarrow> string option" where
  "group11 s =
     (if 11 \<le> length s \<and> list_all idchar (take 11 s) then Some (take 11 s) else None)"

text \<open>The alternatives of the first pattern, in the order of the source.\<close>

definition alternatives :: "string list" where
  "alternatives =
     [''youtube.com/watch?v='', ''youtu.be/'', ''youtube.com/embed/'',
      ''youtube.com/v/'', ''youtube.com/shorts/'']"

text \<open>
  An alternation at a fixed position: the alternatives are tried from left to right, and
  one whose literal matches but whose group does not is given up for the next.
\<close>

fun match_alts :: "string list \<Rightarrow> string \<Rightarrow> string option" where
  "match_alts [] s = None"
| "match_alts (p # ps) s =
     (if starts_with p s then
        (case group11 (drop (length p) s) of
           Some g \<Rightarrow> Some g
         | None \<Rightarrow> match_alts ps s)
      else match_alts ps s)"

definition match1_at :: "string \<Rightarrow> string option" where
  "match1_at s = match_alts alternatives s"

text \<open>
  The tail \<^verbatim>\<open>[\?&]v=([a-zA-Z0-9_-]{11})\<close> of the second pattern at the head of the
  text.
\<close>

definition vparam_at :: "string \<Rightarrow> string option" where
  "vparam_at s =
     (case s of
        [] \<Rightarrow> None
      | c # t \<Rightarrow>
          (if (c = CHR ''?'' \<or> c = CHR ''&'') \<and> starts_with ''v='' t
           then group11 (drop 2 t) else None))"

text \<open>
  The greedy \<^verbatim>\<open>.*\<close> followed by that tail: \<^verbatim>\<open>.\<close> matches every character but the
  newline, the longest run is tried first and shortened one character at a time, so the
  last position of the line where the tail matches is the one taken.
\<close>

fun greedy_vparam :: "string \<Rightarrow> string option" where
  "greedy_vparam [] = vparam_at []"
| "greedy_vparam (c # cs) =
     (if c = CHR 0x0A then vparam_at (c # cs)
      else (case greedy_vparam cs of
              Some g \<Rightarrow> Some g
            | None \<Rightarrow> vparam_at (c # cs)))"

definition match2_at :: "string \<Rightarrow> string option" where
  "match2_at s =
     (if starts_with ''youtube.com/'' s then greedy_vparam (drop 12 s) else None)"

text \<open>
  \<^verbatim>\<open>re.search\<close>: the leftmost position at which the pattern matches, the end of the
  text included.
\<close>

fun re_search :: "(string \<Rightarrow> string option) \<Rightarrow> string \<Rightarrow> string option" where
  "re_search m [] = m []"
| "re_search m (c # cs) =
     (case m (c # cs) of Some g \<Rightarrow> Some g | None \<Rightarrow> re_search m cs)"

definition patterns :: "(string \<Rightarrow> string option) list" where
  "patterns = [match1_at, match2_at]"

text \<open>The loop over the patterns: the first pattern that matches returns its group.\<close>

fun first_match :: "(string \<Rightarrow> string option) list \<Rightarrow> string \<Rightarrow> string option" where
  "first_match [] url = None"
| "first_match (m # ms) url =
     (case re_search m url of Some g \<Rightarrow> Some g | None \<Rightarrow> first_match ms url)"

definition extract_video_id :: "string \<Rightarrow> py_error + string" where
  "extract_video_id url =
     (case first_match patterns url of
        Some g \<Rightarrow> Inr g
      | None \<Rightarrow> Inl (ValueError, ''No valid YouTube video ID found in URL''))"

section \<open>Time formatting\<close>

text \<open>Decimal digits of a natural number, as \<^verbatim>\<open>str\<close> and the \<^verbatim>\<open>d\<close> format write them.\<close>

definition digit_char :: "nat \<Rightarrow> char" where
  "digit_char d = ''0123456789'' ! d"

fun digits :: "nat \<Rightarrow> string" where
  "digits n = (if n < 10 then [digit_char n] else digits (n div 10) @ [digit_char (n mod 10)])"

declare digits.simps [simp del]

definition str_int :: "int \<Rightarrow> string" where
  "str_int n = (if n < 0 then CHR ''-'' # digits (nat (- n)) else digits (nat n))"

text \<open>
  The format \<^verbatim>\<open>{n:02d}\<close>: zeros are put after the sign up to a width of two, the sign
  counted; a longer number is written in full.
\<close>

definition zfill :: "nat \<Rightarrow> string \<Rightarrow> string" where
  "zfill w s = replicate (w - length s) CHR ''0'' @ s"

definition fmt02d :: "int \<Rightarrow> string" where
  "fmt02d n =
     (if n < 0 then CHR ''-'' # zfill 1 (digits (nat (- n))) else zfill 2 (digits (nat n)))"

definition quoted :: "string \<Rightarrow> string" where
  "quoted s = CHR 0x27 # s @ [CHR 0x27]"

definition type_name :: "pyval \<Rightarrow> string" where
  "type_name v =
     (case v of
        PNone \<Rightarrow> ''NoneType'' | PBool _ \<Rightarrow> ''bool'' | PInt _ \<Rightarrow> ''int''
      | PFloat _ \<Rightarrow> ''float'' | PStr _ \<Rightarrow> ''str'' | PList _ \<Rightarrow> ''list''
      | PDict _ \<Rightarrow> ''dict'')"

text \<open>\<^verbatim>\<open>int(x)\<close> of a finite float: the fractional part is dropped, towards zero.\<close>

definition py_trunc :: "real \<Rightarrow> int" where
  "py_trunc x = (if 0 \<le> x then \<lfloor>x\<rfloor> else \<lceil>x\<rceil>)"

text \<open>
  The builtin \<^verbatim>\<open>int\<close> on a value. Its parser of strings is not part of the program and
  is a parameter.
\<close>

definition int_type_error :: "pyval \<Rightarrow> py_error" where
  "int_type_error v =
     (TypeError,
      ''int() argument must be a string, a bytes-like object or a real number, not ''
        @ quoted (type_name v))"

fun py_int :: "(string \<Rightarrow> py_error + int) \<Rightarrow> pyval \<Rightarrow> py_error + int" where
  "py_int ios (PFloat (Finite x)) = Inr (py_trunc x)"
| "py_int ios (PFloat PosInf) = Inl (OverflowError, ''cannot convert float infinity to integer'')"
| "py_int ios (PFloat NegInf) = Inl (OverflowError, ''cannot convert float infinity to integer'')"
| "py_int ios (PFloat NaN) = Inl (ValueError, ''cannot convert float NaN to integer'')"
| "py_int ios (PInt n) = Inr n"
| "py_int ios (PBool b) = Inr (if b then 1 else 0)"
| "py_int ios (PStr s) = ios s"
| "py_int ios PNone = Inl (int_type_error PNone)"
| "py_int ios (PList l) = Inl (int_type_error (PList l))"
| "py_int ios (PDict d) = Inl (int_type_error (PDict d))"

definition format_time :: "(string \<Rightarrow> py_error + int) \<Rightarrow> pyval \<Rightarrow> py_error + string" where
  "format_time ios seconds =
     (case py_int ios seconds of
        Inl e \<Rightarrow> Inl e
      | Inr total_seconds \<Rightarrow>
          (let hours = total_seconds div 3600;
               minutes = (total_seconds mod 3600) div 60;
               secs = total_seconds mod 60
           in Inr (if hours > 0
                   then fmt02d hours @ '':'' @ fmt02d minutes @ '':'' @ fmt02d secs
                   else fmt02d minutes @ '':'' @ fmt02d secs)))"

section \<open>The world outside the program\<close>

text \<open>
  The transcript library, the HTTP client, \<^verbatim>\<open>json.dumps\<close> and the string parser of
  \<^verbatim>\<open>int\<close> are not part of the program; they are parameters. A transcript is the list of
  dictionaries of \<^verbatim>\<open>to_raw_data()\<close>; an HTTP response has its status and the result of
  \<^verbatim>\<open>response.json()\<close>. Each call may raise instead.
\<close>

record http_response =
  status :: int
  json_body :: "py_error + pyval"

record env =
  transcript_fetch :: "string \<Rightarrow> py_error + (string \<times> pyval) list list"
  session_get :: "string \<Rightarrow> py_error + http_response"
  json_dumps :: "pyval \<Rightarrow> nat \<Rightarrow> string"
  int_of_str :: "string \<Rightarrow> py_error + int"

text \<open>What the program did to the outside, in order.\<close>

datatype event = Lookup string | TranscriptFetch string | MetadataRequest string

section \<open>Video details\<close>

definition truthy :: "pyval \<Rightarrow> bool" where
  "truthy v =
     (case v of
        PNone \<Rightarrow> False | PBool b \<Rightarrow> b | PInt n \<Rightarrow> n \<noteq> 0
      | PFloat f \<Rightarrow> f \<noteq> Finite 0 | PStr s \<Rightarrow> s \<noteq> [] | PList l \<Rightarrow> l \<noteq> []
      | PDict d \<Rightarrow> d \<noteq> [])"

text \<open>\<^verbatim>\<open>d.get(k, default)\<close>: only a dictionary has the method.\<close>

definition dict_get :: "pyval \<Rightarrow> string \<Rightarrow> pyval \<Rightarrow> py_error + pyval" where
  "dict_get d k dflt =
     (case d of
        PDict kvs \<Rightarrow> Inr (case map_of kvs k of Some v \<Rightarrow> v | None \<Rightarrow> dflt)
      | _ \<Rightarrow> Inl (AttributeError,
                 quoted (type_name d) @ '' object has no attribute '' @ quoted ''get''))"

text \<open>
  \<^verbatim>\<open>d[k]\<close> for a string key, and \<^verbatim>\<open>v[0]\<close>. The keys of a decoded JSON object are
  strings, so the key \<open>0\<close> is never in one.
\<close>

definition subscript_key :: "pyval \<Rightarrow> string \<Rightarrow> py_error + pyval" where
  "subscript_key d k =
     (case d of
        PDict kvs \<Rightarrow> (case map_of kvs k of Some v \<Rightarrow> Inr v | None \<Rightarrow> Inl (KeyError, quoted k))
      | _ \<Rightarrow> Inl (TypeError, quoted (type_name d) @ '' object is not subscriptable''))"

definition subscript0 :: "pyval \<Rightarrow> py_error + pyval" where
  "subscript0 v =
     (case v of
        PList [] \<Rightarrow> Inl (IndexError, ''list index out of range'')
      | PList (x # _) \<Rightarrow> Inr x
      | PStr [] \<Rightarrow> Inl (IndexError, ''string index out of range'')
      | PStr (c # _) \<Rightarrow> Inr (PStr [c])
      | PDict _ \<Rightarrow> Inl (KeyError, ''0'')
      | _ \<Rightarrow> Inl (TypeError, quoted (type_name v) @ '' object is not subscriptable''))"

text \<open>Sequencing of steps that may raise.\<close>

definition on_success :: "py_error + 'a \<Rightarrow> ('a \<Rightarrow> py_error + 'b) \<Rightarrow> py_error + 'b" where
  "on_success m f = (case m of Inl e \<Rightarrow> Inl e | Inr x \<Rightarrow> f x)"

definition details_of :: "pyval \<Rightarrow> py_error + pyval" where
  "details_of data =
     on_success (dict_get data ''items'' PNone) (\<lambda>items.
       if \<not> truthy items then Inl (Exception, ''Video not found or unavailable'')
       else
         on_success (subscript_key data ''items'') (\<lambda>items'.
         on_success (subscript0 items') (\<lambda>video_info.
         on_success (dict_get video_info ''snippet'' (PDict [])) (\<lambda>snippet.
         on_success (dict_get video_info ''statistics'' (PDict [])) (\<lambda>statistics.
         on_success (dict_get video_info ''contentDetails'' (PDict [])) (\<lambda>content_details.
         on_success (dict_get snippet ''title'' (PStr [])) (\<lambda>title.
         on_success (dict_get snippet ''description'' (PStr [])) (\<lambda>description.
         on_success (dict_get snippet ''channelTitle'' (PStr [])) (\<lambda>channel_title.
         on_success (dict_get snippet ''publishedAt'' (PStr [])) (\<lambda>published_at.
         on_success (dict_get content_details ''duration'' (PStr [])) (\<lambda>duration.
         on_success (dict_get statistics ''viewCount'' (PStr ''0'')) (\<lambda>view_count.
         on_success (dict_get statistics ''likeCount'' (PStr ''0'')) (\<lambda>like_count.
         on_success (dict_get statistics ''commentCount'' (PStr ''0'')) (\<lambda>comment_count.
           Inr (PDict
             [(''title'', title),
              (''description'', description),
              (''channel_title'', channel_title),
              (''published_at'', published_at),
              (''duration'', duration),
              (''view_count'', view_count),
              (''like_count'', like_count),
              (''comment_count'', comment_count)])))))))))))))))"

definition get_video_details :: "env \<Rightarrow> string \<Rightarrow> event list \<times> (py_error + pyval)" where
  "get_video_details env video_id =
     ([MetadataRequest video_id],
      on_success (session_get env video_id) (\<lambda>response.
        if status response \<noteq> 200
        then Inl (Exception,
                  ''YouTube API request failed with status '' @ str_int (status response))
        else on_success (json_body response) details_of))"

section \<open>The lookup\<close>

text \<open>
  \<^verbatim>\<open>{**segment, 'start': _format_time(segment['start'])}\<close>: the key keeps its place in
  the dictionary and takes the new value.
\<close>

definition format_segment ::
  "(string \<Rightarrow> py_error + int) \<Rightarrow> (string \<times> pyval) list \<Rightarrow> py_error + (string \<times> pyval) list"
where
  "format_segment ios segment =
     on_success (subscript_key (PDict segment) ''start'') (\<lambda>start.
     on_success (format_time ios start) (\<lambda>s.
       Inr (AList.update ''start'' (PStr s) segment)))"

fun format_transcript ::
  "(string \<Rightarrow> py_error + int) \<Rightarrow> (string \<times> pyval) list list
     \<Rightarrow> py_error + (string \<times> pyval) list list"
where
  "format_transcript ios [] = Inr []"
| "format_transcript ios (segment # rest) =
     on_success (format_segment ios segment) (\<lambda>s.
     on_success (format_transcript ios rest) (\<lambda>ss. Inr (s # ss)))"

text \<open>The inner \<^verbatim>\<open>try\<close> block: the fetch and the formatting.\<close>

definition transcript_attempt :: "env \<Rightarrow> string \<Rightarrow> py_error + pyval" where
  "transcript_attempt env video_id =
     on_success (transcript_fetch env video_id) (\<lambda>raw_transcript.
     on_success (format_transcript (int_of_str env) raw_transcript) (\<lambda>formatted_transcript.
       Inr (PDict [(''video_id'', PStr video_id),
                   (''transcript'', PList (map PDict formatted_transcript))])))"

text \<open>The body of the outer \<^verbatim>\<open>try\<close> block.\<close>

definition lookup_body :: "env \<Rightarrow> string \<Rightarrow> event list \<times> (py_error + pyval)" where
  "lookup_body env url =
     (case extract_video_id url of
        Inl e \<Rightarrow> ([], Inl e)
      | Inr video_id \<Rightarrow>
          (case transcript_attempt env video_id of
             Inr result \<Rightarrow> ([TranscriptFetch video_id], Inr result)
           | Inl transcript_error \<Rightarrow>
               (case get_video_details env video_id of
                  (evs, r) \<Rightarrow>
                    (TranscriptFetch video_id # evs,
                     on_success r (\<lambda>video_details.
                       Inr (PDict [(''video_id'', PStr video_id),
                                   (''video_details'', video_details)]))))))"

text \<open>
  The two handlers of the outer block, in their order: \<^verbatim>\<open>except ValueError\<close>, then
  \<^verbatim>\<open>except Exception\<close>.
\<close>

definition lookup_handlers :: "py_error \<Rightarrow> py_error + pyval" where
  "lookup_handlers e =
     (if fst e = ValueError
      then Inr (PDict [(''error'', PStr (''Invalid YouTube URL: '' @ snd e))])
      else Inr (PDict [(''error'', PStr (''Failed to process request: '' @ snd e))]))"

definition get_youtube_video_transcript ::
  "env \<Rightarrow> string \<Rightarrow> event list \<times> (py_error + pyval)"
where
  "get_youtube_video_transcript env url =
     (case lookup_body env url of
        (evs, Inr result) \<Rightarrow> (Lookup url # evs, Inr result)
      | (evs, Inl e) \<Rightarrow> (Lookup url # evs, lookup_handlers e))"

section \<open>The tool call\<close>

datatype content = TextContent string

definition handle_call_tool ::
  "env \<Rightarrow> string \<Rightarrow> (string \<times> string) list \<Rightarrow> event list \<times> content list"
where
  "handle_call_tool env name arguments =
     (if name = ''get_youtube_video_transcript'' then
        (case map_of arguments ''url'' of
           None \<Rightarrow> ([], [TextContent ''Error: URL parameter is required''])
         | Some url \<Rightarrow>
             if url = [] then ([], [TextContent ''Error: URL parameter is required''])
             else
               (case get_youtube_video_transcript env url of
                  (evs, Inr result) \<Rightarrow> (evs, [TextContent (json_dumps env result 2)])
                | (evs, Inl e) \<Rightarrow> (evs, [TextContent (''Error: '' @ snd e)])))
      else ([], [TextContent (''Unknown tool: '' @ name)]))"

section \<open>Sample backends\<close>

text \<open>Concrete backends, on which the theorems below are instantiated.\<close>

definition sample_segment :: "(string \<times> pyval) list" where
  "sample_segment =
     [(''text'', PStr ''Hi''), (''start'', PFloat (Finite 5)), (''duration'', PFloat (Finite 2))]"

definition sample_items :: pyval where
  "sample_items =
     PDict [(''items'',
       PList [PDict [(''snippet'', PDict [(''title'', PStr ''Never Gonna Give You Up'')])]])]"

definition sample_env :: env where
  "sample_env =
     \<lparr>transcript_fetch = (\<lambda>v. Inr [sample_segment]),
      session_get = (\<lambda>v. Inr \<lparr>status = 200, json_body = Inr sample_items\<rparr>),
      json_dumps = (\<lambda>v n. ''{}''),
      int_of_str = (\<lambda>s. Inl (ValueError, ''invalid literal for int() with base 10''))\<rparr>"

text \<open>The transcript library raises; the metadata API answers.\<close>

definition blocked_env :: env where
  "blocked_env =
     sample_env\<lparr>transcript_fetch := (\<lambda>v. Inl (Exception, ''Could not retrieve a transcript''))\<rparr>"

text \<open>
  The transcript library raises, and the metadata API answers 200 with a body that is not
  JSON: \<^verbatim>\<open>response.json()\<close> raises \<^verbatim>\<open>json.JSONDecodeError\<close>, a \<^verbatim>\<open>ValueError\<close>.
\<close>

definition bad_json_env :: env where
  "bad_json_env =
     blocked_env\<lparr>session_get := (\<lambda>v. Inr
        \<lparr>status = 200,
         json_body = Inl (ValueError, ''Expecting value: line 1 column 1 (char 0)'')\<rparr>)\<rparr>"

text \<open>The transcript library raises; the metadata API answers 404, or with no item.\<close>

definition status_404_env :: env where
  "status_404_env =
     blocked_env\<lparr>session_get := (\<lambda>v. Inr \<lparr>status = 404, json_body = Inr (PDict [])\<rparr>)\<rparr>"

definition no_items_env :: env where
  "no_items_env =
     blocked_env\<lparr>session_get := (\<lambda>v. Inr
        \<lparr>status = 200, json_body = Inr (PDict [(''items'', PList [])])\<rparr>)\<rparr>"

section \<open>Basic facts\<close>

lemma on_success_simps:
  "on_success (Inl e) f = Inl e" "on_success (Inr x) f = f x"
  by (simp_all add: on_success_def)

lemma not_a_url:
  "extract_video_id ''not a url''
     = Inl (ValueError, ''No valid YouTube video ID found in URL'')"
  by (simp add: extract_video_id_def patterns_def match1_at_def match2_at_def
      alternatives_def starts_with_def)

lemma lookup_total: "\<exists>r. snd (get_youtube_video_transcript env url) = Inr r"
  by (auto simp: get_youtube_video_transcript_def lookup_handlers_def
      split: prod.splits sum.splits)

section \<open>Properties of the tool call\<close>

text \<open>
  C8, amended. A call of the tool without a \<open>url\<close> argument returns the plain text
  \<open>Error: URL parameter is required\<close>; for every supplied url that is not the empty
  string, the lookup returns a result and the response body is \<^verbatim>\<open>json.dumps\<close> of that
  result with \<^verbatim>\<open>indent=2\<close>.
\<close>

theorem tool_call_body:
  "(map_of arguments ''url'' = None \<longrightarrow>
      handle_call_tool env ''get_youtube_video_transcript'' arguments
        = ([], [TextContent ''Error: URL parameter is required'']))
   \<and> (\<forall>url. map_of arguments ''url'' = Some url \<and> url \<noteq> [] \<longrightarrow>
         (\<exists>result. snd (get_youtube_video_transcript env url) = Inr result
            \<and> snd (handle_call_tool env ''get_youtube_video_transcript'' arguments)
                = [TextContent (json_dumps env result 2)]))"
proof (intro conjI allI impI)
  assume "map_of arguments ''url'' = None"
  then show "handle_call_tool env ''get_youtube_video_transcript'' arguments
        = ([], [TextContent ''Error: URL parameter is required''])"
    by (simp add: handle_call_tool_def)
next
  fix url
  assume a: "map_of arguments ''url'' = Some url \<and> url \<noteq> []"
  obtain evs r where g: "get_youtube_video_transcript env url = (evs, Inr r)"
    using lookup_total [of env url] by (cases "get_youtube_video_transcript env url") auto
  with a have "snd (handle_call_tool env ''get_youtube_video_transcript'' arguments)
                = [TextContent (json_dumps env r 2)]"
    by (simp add: handle_call_tool_def)
  with g show "\<exists>result. snd (get_youtube_video_transcript env url) = Inr result
            \<and> snd (handle_call_tool env ''get_youtube_video_transcript'' arguments)
                = [TextContent (json_dumps env result 2)]"
    by simp
qed

theorem tool_call_body_witness:
  "handle_call_tool sample_env ''get_youtube_video_transcript'' []
        = ([], [TextContent ''Error: URL parameter is required''])
   \<and> snd (handle_call_tool sample_env ''get_youtube_video_transcript''
            [(''url'', ''not a url'')])
        = [TextContent (json_dumps sample_env
             (PDict [(''error'',
                PStr ''Invalid YouTube URL: No valid YouTube video ID found in URL'')]) 2)]"
  using tool_call_body [of "[]" sample_env]
    tool_call_body [of "[(''url'', ''not a url'')]" sample_env]
  by (simp add: get_youtube_video_transcript_def lookup_body_def not_a_url
      lookup_handlers_def)

text \<open>
  C8 as stated fails at a supplied url that is the empty string: the body is the plain
  text, not the serialization of the result of the lookup.
\<close>

theorem tool_call_empty_url_counterexample:
  "snd (get_youtube_video_transcript sample_env [])
     = Inr (PDict [(''error'',
         PStr ''Invalid YouTube URL: No valid YouTube video ID found in URL'')])
   \<and> snd (handle_call_tool sample_env ''get_youtube_video_transcript'' [(''url'', [])])
     = [TextContent ''Error: URL parameter is required'']
   \<and> [TextContent ''Error: URL parameter is required'']
     \<noteq> [TextContent (json_dumps sample_env
          (PDict [(''error'',
             PStr ''Invalid YouTube URL: No valid YouTube video ID found in URL'')]) 2)]"
  by (simp add: handle_call_tool_def sample_env_def get_youtube_video_transcript_def
      lookup_body_def lookup_handlers_def extract_video_id_def patterns_def match1_at_def
      match2_at_def alternatives_def starts_with_def)

text \<open>
  C9. A \<open>url\<close> argument that is the empty string is treated as a missing one: the call
  returns the plain text \<open>Error: URL parameter is required\<close> and nothing is done to the
  outside (no lookup, no backend call).
\<close>

theorem empty_url_like_missing:
  assumes "map_of arguments ''url'' = Some []" and "map_of arguments' ''url'' = None"
  shows "handle_call_tool env ''get_youtube_video_transcript'' arguments
           = ([], [TextContent ''Error: URL parameter is required''])
       \<and> handle_call_tool env ''get_youtube_video_transcript'' arguments
           = handle_call_tool env ''get_youtube_video_transcript'' arguments'"
  using assms by (simp add: handle_call_tool_def)

theorem empty_url_like_missing_witness:
  "handle_call_tool sample_env ''get_youtube_video_transcript'' [(''url'', [])]
           = ([], [TextContent ''Error: URL parameter is required''])
       \<and> handle_call_tool sample_env ''get_youtube_video_transcript'' [(''url'', [])]
           = handle_call_tool sample_env ''get_youtube_video_transcript'' []"
proof -
  have a: "map_of [(''url'', [])] ''url'' = Some ([] :: string)" by simp
  have b: "map_of ([] :: (string \<times> string) list) ''url'' = None" by simp
  show ?thesis by (rule empty_url_like_missing [OF a b])
qed

section \<open>Properties of the lookup\<close>

lemma lookup_handlers_Inr: "\<exists>msg. lookup_handlers e = Inr (PDict [(''error'', PStr msg)])"
  by (simp add: lookup_handlers_def)

lemma lookup_cases:
  "(\<exists>vid raw segs. extract_video_id url = Inr vid \<and> transcript_fetch env vid = Inr raw
        \<and> format_transcript (int_of_str env) raw = Inr segs
        \<and> get_youtube_video_transcript env url =
            ([Lookup url, TranscriptFetch vid],
             Inr (PDict [(''video_id'', PStr vid), (''transcript'', PList (map PDict segs))])))
   \<or> (\<exists>vid e details. extract_video_id url = Inr vid \<and> transcript_attempt env vid = Inl e
        \<and> snd (get_video_details env vid) = Inr details
        \<and> get_youtube_video_transcript env url =
            ([Lookup url, TranscriptFetch vid, MetadataRequest vid],
             Inr (PDict [(''video_id'', PStr vid), (''video_details'', details)])))
   \<or> (\<exists>vid e err. extract_video_id url = Inr vid \<and> transcript_attempt env vid = Inl e
        \<and> snd (get_video_details env vid) = Inl err
        \<and> get_youtube_video_transcript env url =
            ([Lookup url, TranscriptFetch vid, MetadataRequest vid], lookup_handlers err))
   \<or> (\<exists>err. extract_video_id url = Inl err
        \<and> get_youtube_video_transcript env url = ([Lookup url], lookup_handlers err))"
proof (cases "extract_video_id url")
  case (Inl err)
  then show ?thesis
    by (cases err) (simp add: get_youtube_video_transcript_def lookup_body_def)
next
  case (Inr vid)
  note vid = this
  show ?thesis
  proof (cases "transcript_attempt env vid")
    case (Inr res)
    then obtain raw segs where "transcript_fetch env vid = Inr raw"
      "format_transcript (int_of_str env) raw = Inr segs"
      "res = PDict [(''video_id'', PStr vid), (''transcript'', PList (map PDict segs))]"
      by (auto simp: transcript_attempt_def on_success_def split: sum.splits)
    with vid Inr show ?thesis
      by (simp add: get_youtube_video_transcript_def lookup_body_def)
  next
    case (Inl e)
    obtain r where gvd: "get_video_details env vid = ([MetadataRequest vid], r)"
      by (simp add: get_video_details_def)
    show ?thesis
    proof (cases r)
      case (Inr details)
      with vid Inl gvd show ?thesis
        by (simp add: get_youtube_video_transcript_def lookup_body_def on_success_simps)
    next
      case (Inl err)
      with vid \<open>transcript_attempt env vid = Inl e\<close> gvd show ?thesis
        by (cases err) (simp add: get_youtube_video_transcript_def lookup_body_def on_success_simps)
    qed
  qed
qed

text \<open>
  C2. For every url the lookup returns (it raises nothing) and its result is exactly one
  of: the identifier with the transcript, every segment of it formatted; the identifier
  with the video details; one error message. On \<open>not a url\<close> it is the error
  \<open>Invalid YouTube URL: No valid YouTube video ID found in URL\<close>. (Signals that do not
  derive from \<^verbatim>\<open>Exception\<close>, such as a cancellation, are outside the model.)
\<close>

theorem lookup_result_shapes:
  "(\<exists>r. snd (get_youtube_video_transcript env url) = Inr r
      \<and> ((\<exists>vid raw segs. extract_video_id url = Inr vid
              \<and> transcript_fetch env vid = Inr raw
              \<and> format_transcript (int_of_str env) raw = Inr segs
              \<and> r = PDict [(''video_id'', PStr vid),
                           (''transcript'', PList (map PDict segs))])
         \<or> (\<exists>vid details. extract_video_id url = Inr vid
              \<and> snd (get_video_details env vid) = Inr details
              \<and> r = PDict [(''video_id'', PStr vid), (''video_details'', details)])
         \<or> (\<exists>msg. r = PDict [(''error'', PStr msg)])))
   \<and> snd (get_youtube_video_transcript env ''not a url'')
       = Inr (PDict [(''error'',
            PStr ''Invalid YouTube URL: No valid YouTube video ID found in URL'')])"
proof
  show "\<exists>r. snd (get_youtube_video_transcript env url) = Inr r
      \<and> ((\<exists>vid raw segs. extract_video_id url = Inr vid
              \<and> transcript_fetch env vid = Inr raw
              \<and> format_transcript (int_of_str env) raw = Inr segs
              \<and> r = PDict [(''video_id'', PStr vid),
                           (''transcript'', PList (map PDict segs))])
         \<or> (\<exists>vid details. extract_video_id url = Inr vid
              \<and> snd (get_video_details env vid) = Inr details
              \<and> r = PDict [(''video_id'', PStr vid), (''video_details'', details)])
         \<or> (\<exists>msg. r = PDict [(''error'', PStr msg)]))"
    using lookup_cases [of url env] lookup_handlers_Inr
    by (elim disjE exE conjE) (simp_all, metis+)
  show "snd (get_youtube_video_transcript env ''not a url'')
       = Inr (PDict [(''error'',
            PStr ''Invalid YouTube URL: No valid YouTube video ID found in URL'')])"
    by (simp add: get_youtube_video_transcript_def lookup_body_def not_a_url
        lookup_handlers_def)
qed


section \<open>Properties of the video details\<close>

lemma dict_get_PDict:
  "dict_get (PDict kvs) k dflt = Inr (case map_of kvs k of Some v \<Rightarrow> v | None \<Rightarrow> dflt)"
  by (simp add: dict_get_def)

lemma details_of_no_items:
  "map_of body ''items'' = None \<or> map_of body ''items'' = Some (PList []) \<Longrightarrow>
   details_of (PDict body) = Inl (Exception, ''Video not found or unavailable'')"
  by (auto simp: details_of_def dict_get_PDict on_success_simps truthy_def)

lemma details_of_item:
  assumes items: "map_of body ''items'' = Some (PList (PDict info # others))"
    and sn: "map_of info ''snippet'' = None \<and> sn = [] \<or> map_of info ''snippet'' = Some (PDict sn)"
    and st: "map_of info ''statistics'' = None \<and> st = []
               \<or> map_of info ''statistics'' = Some (PDict st)"
    and cd: "map_of info ''contentDetails'' = None \<and> cd = []
               \<or> map_of info ''contentDetails'' = Some (PDict cd)"
  shows "details_of (PDict body) =
     Inr (PDict
       [(''title'', case map_of sn ''title'' of Some v \<Rightarrow> v | None \<Rightarrow> PStr []),
        (''description'', case map_of sn ''description'' of Some v \<Rightarrow> v | None \<Rightarrow> PStr []),
        (''channel_title'', case map_of sn ''channelTitle'' of Some v \<Rightarrow> v | None \<Rightarrow> PStr []),
        (''published_at'', case map_of sn ''publishedAt'' of Some v \<Rightarrow> v | None \<Rightarrow> PStr []),
        (''duration'', case map_of cd ''duration'' of Some v \<Rightarrow> v | None \<Rightarrow> PStr []),
        (''view_count'', case map_of st ''viewCount'' of Some v \<Rightarrow> v | None \<Rightarrow> PStr ''0''),
        (''like_count'', case map_of st ''likeCount'' of Some v \<Rightarrow> v | None \<Rightarrow> PStr ''0''),
        (''comment_count'',
           case map_of st ''commentCount'' of Some v \<Rightarrow> v | None \<Rightarrow> PStr ''0'')])"
proof -
  have a: "(case map_of info ''snippet'' of None \<Rightarrow> PDict [] | Some v \<Rightarrow> v) = PDict sn"
    using sn by auto
  have b: "(case map_of info ''statistics'' of None \<Rightarrow> PDict [] | Some v \<Rightarrow> v) = PDict st"
    using st by auto
  have c: "(case map_of info ''contentDetails'' of None \<Rightarrow> PDict [] | Some v \<Rightarrow> v) = PDict cd"
    using cd by auto
  show ?thesis
    by (simp add: details_of_def dict_get_PDict on_success_simps items a b c truthy_def
        subscript_key_def subscript0_def)
qed

text \<open>
  C7. The metadata fetch raises \<open>YouTube API request failed with status n\<close> on every
  status other than 200, raises \<open>Video not found or unavailable\<close> when the response
  has no item, and otherwise, for a first item whose three facets are each absent or an
  object, returns the eight fields, each read from its facet on its own, with the empty
  string (for the texts) or \<open>0\<close> (for the counts) where the key is absent.
\<close>

theorem video_details_contract:
  "(session_get env vid = Inr resp \<and> status resp \<noteq> 200 \<longrightarrow>
      snd (get_video_details env vid)
        = Inl (Exception, ''YouTube API request failed with status '' @ str_int (status resp)))
   \<and> (session_get env vid = Inr resp \<and> status resp = 200 \<and> json_body resp = Inr (PDict body)
        \<and> (map_of body ''items'' = None \<or> map_of body ''items'' = Some (PList [])) \<longrightarrow>
      snd (get_video_details env vid) = Inl (Exception, ''Video not found or unavailable''))
   \<and> (session_get env vid = Inr resp \<and> status resp = 200 \<and> json_body resp = Inr (PDict body)
        \<and> map_of body ''items'' = Some (PList (PDict info # others))
        \<and> (map_of info ''snippet'' = None \<and> sn = [] \<or> map_of info ''snippet'' = Some (PDict sn))
        \<and> (map_of info ''statistics'' = None \<and> st = []
              \<or> map_of info ''statistics'' = Some (PDict st))
        \<and> (map_of info ''contentDetails'' = None \<and> cd = []
              \<or> map_of info ''contentDetails'' = Some (PDict cd)) \<longrightarrow>
      snd (get_video_details env vid) =
        Inr (PDict
         [(''title'', case map_of sn ''title'' of Some v \<Rightarrow> v | None \<Rightarrow> PStr []),
          (''description'', case map_of sn ''description'' of Some v \<Rightarrow> v | None \<Rightarrow> PStr []),
          (''channel_title'', case map_of sn ''channelTitle'' of Some v \<Rightarrow> v | None \<Rightarrow> PStr []),
          (''published_at'', case map_of sn ''publishedAt'' of Some v \<Rightarrow> v | None \<Rightarrow> PStr []),
          (''duration'', case map_of cd ''duration'' of Some v \<Rightarrow> v | None \<Rightarrow> PStr []),
          (''view_count'', case map_of st ''viewCount'' of Some v \<Rightarrow> v | None \<Rightarrow> PStr ''0''),
          (''like_count'', case map_of st ''likeCount'' of Some v \<Rightarrow> v | None \<Rightarrow> PStr ''0''),
          (''comment_count'',
             case map_of st ''commentCount'' of Some v \<Rightarrow> v | None \<Rightarrow> PStr ''0'')]))"
proof (intro conjI impI)
  assume "session_get env vid = Inr resp \<and> status resp \<noteq> 200"
  then show "snd (get_video_details env vid)
        = Inl (Exception, ''YouTube API request failed with status '' @ str_int (status resp))"
    by (simp add: get_video_details_def on_success_simps)
next
  assume "session_get env vid = Inr resp \<and> status resp = 200 \<and> json_body resp = Inr (PDict body)
        \<and> (map_of body ''items'' = None \<or> map_of body ''items'' = Some (PList []))"
  then show "snd (get_video_details env vid) = Inl (Exception, ''Video not found or unavailable'')"
    by (simp add: get_video_details_def on_success_simps details_of_no_items)
next
  assume h: "session_get env vid = Inr resp \<and> status resp = 200 \<and> json_body resp = Inr (PDict body)
        \<and> map_of body ''items'' = Some (PList (PDict info # others))
        \<and> (map_of info ''snippet'' = None \<and> sn = [] \<or> map_of info ''snippet'' = Some (PDict sn))
        \<and> (map_of info ''statistics'' = None \<and> st = []
              \<or> map_of info ''statistics'' = Some (PDict st))
        \<and> (map_of info ''contentDetails'' = None \<and> cd = []
              \<or> map_of info ''contentDetails'' = Some (PDict cd))"
  then have "snd (get_video_details env vid) = details_of (PDict body)"
    by (simp add: get_video_details_def on_success_simps)
  also have "\<dots> = Inr (PDict
         [(''title'', case map_of sn ''title'' of Some v \<Rightarrow> v | None \<Rightarrow> PStr []),
          (''description'', case map_of sn ''description'' of Some v \<Rightarrow> v | None \<Rightarrow> PStr []),
          (''channel_title'', case map_of sn ''channelTitle'' of Some v \<Rightarrow> v | None \<Rightarrow> PStr []),
          (''published_at'', case map_of sn ''publishedAt'' of Some v \<Rightarrow> v | None \<Rightarrow> PStr []),
          (''duration'', case map_of cd ''duration'' of Some v \<Rightarrow> v | None \<Rightarrow> PStr []),
          (''view_count'', case map_of st ''viewCount'' of Some v \<Rightarrow> v | None \<Rightarrow> PStr ''0''),
          (''like_count'', case map_of st ''likeCount'' of Some v \<Rightarrow> v | None \<Rightarrow> PStr ''0''),
          (''comment_count'',
             case map_of st ''commentCount'' of Some v \<Rightarrow> v | None \<Rightarrow> PStr ''0'')])"
    using h by (intro details_of_item) blast+
  finally show "snd (get_video_details env vid) = Inr (PDict
         [(''title'', case map_of sn ''title'' of Some v \<Rightarrow> v | None \<Rightarrow> PStr []),
          (''description'', case map_of sn ''description'' of Some v \<Rightarrow> v | None \<Rightarrow> PStr []),
          (''channel_title'', case map_of sn ''channelTitle'' of Some v \<Rightarrow> v | None \<Rightarrow> PStr []),
          (''published_at'', case map_of sn ''publishedAt'' of Some v \<Rightarrow> v | None \<Rightarrow> PStr []),
          (''duration'', case map_of cd ''duration'' of Some v \<Rightarrow> v | None \<Rightarrow> PStr []),
          (''view_count'', case map_of st ''viewCount'' of Some v \<Rightarrow> v | None \<Rightarrow> PStr ''0''),
          (''like_count'', case map_of st ''likeCount'' of Some v \<Rightarrow> v | None \<Rightarrow> PStr ''0''),
          (''comment_count'',
             case map_of st ''commentCount'' of Some v \<Rightarrow> v | None \<Rightarrow> PStr ''0'')])" .
qed

lemma str_int_404: "str_int 404 = ''404''"
  by (simp add: str_int_def digits.simps digit_char_def)

theorem video_details_contract_witness:
  "snd (get_video_details status_404_env ''dQw4w9WgXcQ'')
     = Inl (Exception, ''YouTube API request failed with status 404'')
   \<and> snd (get_video_details no_items_env ''dQw4w9WgXcQ'')
     = Inl (Exception, ''Video not found or unavailable'')
   \<and> snd (get_video_details sample_env ''dQw4w9WgXcQ'')
     = Inr (PDict
         [(''title'', PStr ''Never Gonna Give You Up''), (''description'', PStr []),
          (''channel_title'', PStr []), (''published_at'', PStr []),
          (''duration'', PStr []), (''view_count'', PStr ''0''),
          (''like_count'', PStr ''0''), (''comment_count'', PStr ''0'')])"
proof -
  have 1: "snd (get_video_details status_404_env ''dQw4w9WgXcQ'')
     = Inl (Exception, ''YouTube API request failed with status 404'')"
    using video_details_contract [of status_404_env "''dQw4w9WgXcQ''"
        "\<lparr>status = 404, json_body = Inr (PDict [])\<rparr>"]
    by (simp add: status_404_env_def str_int_404)
  have 2: "snd (get_video_details no_items_env ''dQw4w9WgXcQ'')
     = Inl (Exception, ''Video not found or unavailable'')"
    using video_details_contract [of no_items_env "''dQw4w9WgXcQ''"
        "\<lparr>status = 200, json_body = Inr (PDict [(''items'', PList [])])\<rparr>"
        "[(''items'', PList [])]"]
    by (simp add: no_items_env_def)
  have 3: "snd (get_video_details sample_env ''dQw4w9WgXcQ'')
     = Inr (PDict
         [(''title'', PStr ''Never Gonna Give You Up''), (''description'', PStr []),
          (''channel_title'', PStr []), (''published_at'', PStr []),
          (''duration'', PStr []), (''view_count'', PStr ''0''),
          (''like_count'', PStr ''0''), (''comment_count'', PStr ''0'')])"
    using video_details_contract [of sample_env "''dQw4w9WgXcQ''"
        "\<lparr>status = 200, json_body = Inr sample_items\<rparr>"
        "[(''items'',
           PList [PDict [(''snippet'', PDict [(''title'', PStr ''Never Gonna Give You Up'')])]])]"
        "[(''snippet'', PDict [(''title'', PStr ''Never Gonna Give You Up'')])]" "[]"
        "[(''title'', PStr ''Never Gonna Give You Up'')]" "[]" "[]"]
    by (simp add: sample_env_def sample_items_def)
  from 1 2 3 show ?thesis by blast
qed


section \<open>Transcript and fallback\<close>

lemma watch_url:
  "extract_video_id ''https://www.youtube.com/watch?v=dQw4w9WgXcQ'' = Inr ''dQw4w9WgXcQ''"
  by (simp add: extract_video_id_def patterns_def match1_at_def alternatives_def
      starts_with_def group11_def idchar_def)

lemma format_time_finite:
  "\<exists>s. format_time ios (PFloat (Finite x)) = Inr s"
  by (simp add: format_time_def Let_def)

lemma format_segment_finite:
  assumes "map_of seg ''start'' = Some (PFloat (Finite x))"
  shows "\<exists>s. format_time ios (PFloat (Finite x)) = Inr s
           \<and> format_segment ios seg = Inr (AList.update ''start'' (PStr s) seg)"
proof -
  obtain s where s: "format_time ios (PFloat (Finite x)) = Inr s"
    using format_time_finite by blast
  with assms have "format_segment ios seg = Inr (AList.update ''start'' (PStr s) seg)"
    by (simp add: format_segment_def subscript_key_def on_success_simps)
  with s show ?thesis by blast
qed

lemma format_transcript_finite:
  assumes "\<forall>seg\<in>set raw. \<exists>x. map_of seg ''start'' = Some (PFloat (Finite x))"
  shows "\<exists>segs. format_transcript ios raw = Inr segs
           \<and> list_all2 (\<lambda>seg seg'. \<exists>x s. map_of seg ''start'' = Some (PFloat (Finite x))
                 \<and> format_time ios (PFloat (Finite x)) = Inr s
                 \<and> seg' = AList.update ''start'' (PStr s) seg) raw segs"
  using assms
proof (induction raw)
  case Nil
  then show ?case by simp
next
  case (Cons seg raw)
  then obtain x where x: "map_of seg ''start'' = Some (PFloat (Finite x))" by auto
  then obtain s where s: "format_time ios (PFloat (Finite x)) = Inr s"
    "format_segment ios seg = Inr (AList.update ''start'' (PStr s) seg)"
    using format_segment_finite by blast
  from Cons obtain segs where segs: "format_transcript ios raw = Inr segs"
    "list_all2 (\<lambda>seg seg'. \<exists>x s. map_of seg ''start'' = Some (PFloat (Finite x))
                 \<and> format_time ios (PFloat (Finite x)) = Inr s
                 \<and> seg' = AList.update ''start'' (PStr s) seg) raw segs"
    by auto
  have "format_transcript ios (seg # raw) = Inr (AList.update ''start'' (PStr s) seg # segs)"
    by (simp add: s segs on_success_simps)
  with x s segs show ?case by auto
qed

lemma update_start_keys:
  "map_of seg ''start'' = Some v \<Longrightarrow> map fst (AList.update ''start'' w seg) = map fst seg"
  by (induction seg) (auto split: if_splits)

text \<open>
  C6. When the identifier is extracted, the transcript fetch succeeds and every segment
  has a finite float under \<open>start\<close>, the lookup returns the identifier with the
  transcript and makes no metadata request; the segments are as many and in the order of
  the backend, each has the keys of its source in their order, its \<open>start\<close> is the
  display string of the source's offset, and every other key has the value of the source.
\<close>

theorem transcript_success:
  assumes "extract_video_id url = Inr vid" and "transcript_fetch env vid = Inr raw"
    and "\<forall>seg\<in>set raw. \<exists>x. map_of seg ''start'' = Some (PFloat (Finite x))"
  shows "\<exists>segs. get_youtube_video_transcript env url =
            ([Lookup url, TranscriptFetch vid],
             Inr (PDict [(''video_id'', PStr vid), (''transcript'', PList (map PDict segs))]))
          \<and> length segs = length raw
          \<and> (\<forall>i<length raw.
                map fst (segs ! i) = map fst (raw ! i)
              \<and> (\<exists>x s. map_of (raw ! i) ''start'' = Some (PFloat (Finite x))
                    \<and> format_time (int_of_str env) (PFloat (Finite x)) = Inr s
                    \<and> map_of (segs ! i) ''start'' = Some (PStr s))
              \<and> (\<forall>k. k \<noteq> ''start'' \<longrightarrow> map_of (segs ! i) k = map_of (raw ! i) k))"
proof -
  obtain segs where segs: "format_transcript (int_of_str env) raw = Inr segs"
    and rel: "list_all2 (\<lambda>seg seg'. \<exists>x s. map_of seg ''start'' = Some (PFloat (Finite x))
                 \<and> format_time (int_of_str env) (PFloat (Finite x)) = Inr s
                 \<and> seg' = AList.update ''start'' (PStr s) seg) raw segs"
    using format_transcript_finite [OF assms(3)] by blast
  have res: "get_youtube_video_transcript env url =
            ([Lookup url, TranscriptFetch vid],
             Inr (PDict [(''video_id'', PStr vid), (''transcript'', PList (map PDict segs))]))"
    using assms(1,2) segs
    by (simp add: get_youtube_video_transcript_def lookup_body_def transcript_attempt_def
        on_success_simps)
  have len: "length segs = length raw"
    using rel by (simp add: list_all2_lengthD)
  have each: "map fst (segs ! i) = map fst (raw ! i)
              \<and> (\<exists>x s. map_of (raw ! i) ''start'' = Some (PFloat (Finite x))
                    \<and> format_time (int_of_str env) (PFloat (Finite x)) = Inr s
                    \<and> map_of (segs ! i) ''start'' = Some (PStr s))
              \<and> (\<forall>k. k \<noteq> ''start'' \<longrightarrow> map_of (segs ! i) k = map_of (raw ! i) k)"
    if "i < length raw" for i
  proof -
    from rel that obtain x s where
      x: "map_of (raw ! i) ''start'' = Some (PFloat (Finite x))"
      and s: "format_time (int_of_str env) (PFloat (Finite x)) = Inr s"
      and u: "segs ! i = AList.update ''start'' (PStr s) (raw ! i)"
      by (auto simp: list_all2_conv_all_nth)
    show ?thesis
      using x s by (auto simp: u update_start_keys update_conv')
  qed
  from res len each show ?thesis by blast
qed

theorem transcript_success_witness:
  "\<exists>segs. get_youtube_video_transcript sample_env
              ''https://www.youtube.com/watch?v=dQw4w9WgXcQ''
     = ([Lookup ''https://www.youtube.com/watch?v=dQw4w9WgXcQ'',
         TranscriptFetch ''dQw4w9WgXcQ''],
        Inr (PDict [(''video_id'', PStr ''dQw4w9WgXcQ''),
                    (''transcript'', PList (map PDict segs))]))
   \<and> length segs = 1
   \<and> map fst (segs ! 0) = [''text'', ''start'', ''duration'']
   \<and> map_of (segs ! 0) ''text'' = Some (PStr ''Hi'')
   \<and> map_of (segs ! 0) ''start'' = Some (PStr ''00:05'')
   \<and> map_of (segs ! 0) ''duration'' = Some (PFloat (Finite 2))"
proof -
  have a: "transcript_fetch sample_env ''dQw4w9WgXcQ'' = Inr [sample_segment]"
    by (simp add: sample_env_def)
  have b: "\<forall>seg\<in>set [sample_segment]. \<exists>x. map_of seg ''start'' = Some (PFloat (Finite x))"
    by (simp add: sample_segment_def)
  have f: "format_time (int_of_str sample_env) (PFloat (Finite 5)) = Inr ''00:05''"
    by (simp add: format_time_def py_trunc_def fmt02d_def zfill_def digits.simps digit_char_def)
  from transcript_success [OF watch_url a b] obtain segs where
    r: "get_youtube_video_transcript sample_env ''https://www.youtube.com/watch?v=dQw4w9WgXcQ'' =
            ([Lookup ''https://www.youtube.com/watch?v=dQw4w9WgXcQ'',
              TranscriptFetch ''dQw4w9WgXcQ''],
             Inr (PDict [(''video_id'', PStr ''dQw4w9WgXcQ''),
                         (''transcript'', PList (map PDict segs))]))"
    and len: "length segs = length [sample_segment]"
    and each: "\<forall>i<length [sample_segment].
                map fst (segs ! i) = map fst ([sample_segment] ! i)
              \<and> (\<exists>x s. map_of ([sample_segment] ! i) ''start'' = Some (PFloat (Finite x))
                    \<and> format_time (int_of_str sample_env) (PFloat (Finite x)) = Inr s
                    \<and> map_of (segs ! i) ''start'' = Some (PStr s))
              \<and> (\<forall>k. k \<noteq> ''start'' \<longrightarrow>
                    map_of (segs ! i) k = map_of ([sample_segment] ! i) k)"
    by blast
  from each have keys: "map fst (segs ! 0) = map fst sample_segment"
    and st: "\<exists>x s. map_of sample_segment ''start'' = Some (PFloat (Finite x))
                    \<and> format_time (int_of_str sample_env) (PFloat (Finite x)) = Inr s
                    \<and> map_of (segs ! 0) ''start'' = Some (PStr s)"
    and rest: "\<forall>k. k \<noteq> ''start'' \<longrightarrow> map_of (segs ! 0) k = map_of sample_segment k"
    by simp_all
  from st have st': "map_of (segs ! 0) ''start'' = Some (PStr ''00:05'')"
    by (auto simp: sample_segment_def f)
  from rest have "map_of (segs ! 0) ''text'' = Some (PStr ''Hi'')"
    "map_of (segs ! 0) ''duration'' = Some (PFloat (Finite 2))"
    by (simp_all add: sample_segment_def)
  with r len keys st' show ?thesis by (auto simp: sample_segment_def)
qed

text \<open>
  After a failed transcript attempt the metadata is requested once, and the result is the
  video details or an error. The error message starts with
  \<open>Failed to process request: \<close> unless the failure of the metadata fetch is a
  \<^verbatim>\<open>ValueError\<close>, which the first handler of the outer block takes.
\<close>

lemma fallback_after_transcript_failure:
  assumes "extract_video_id url = Inr vid" and "transcript_attempt env vid = Inl e"
  shows "fst (get_youtube_video_transcript env url)
           = [Lookup url, TranscriptFetch vid, MetadataRequest vid]
       \<and> snd (get_youtube_video_transcript env url)
           = (case snd (get_video_details env vid) of
                Inr details \<Rightarrow>
                  Inr (PDict [(''video_id'', PStr vid), (''video_details'', details)])
              | Inl err \<Rightarrow>
                  Inr (PDict [(''error'',
                    PStr ((if fst err = ValueError then ''Invalid YouTube URL: ''
                           else ''Failed to process request: '') @ snd err))]))"
proof -
  obtain r where gvd: "get_video_details env vid = ([MetadataRequest vid], r)"
    by (simp add: get_video_details_def)
  show ?thesis
    using assms gvd
    by (cases r)
      (simp_all add: get_youtube_video_transcript_def lookup_body_def on_success_simps
        lookup_handlers_def)
qed

text \<open>
  C3 at a failing input: the transcript library raises and the metadata API answers 200
  with a body that is not JSON, so that \<^verbatim>\<open>response.json()\<close> raises a
  \<^verbatim>\<open>ValueError\<close>. The metadata is requested once, and the error returned starts with
  \<open>Invalid YouTube URL: \<close>, not with \<open>Failed to process request: \<close>.
\<close>

theorem fallback_value_error:
  "get_youtube_video_transcript bad_json_env ''https://www.youtube.com/watch?v=dQw4w9WgXcQ''
     = ([Lookup ''https://www.youtube.com/watch?v=dQw4w9WgXcQ'',
         TranscriptFetch ''dQw4w9WgXcQ'', MetadataRequest ''dQw4w9WgXcQ''],
        Inr (PDict [(''error'',
          PStr ''Invalid YouTube URL: Expecting value: line 1 column 1 (char 0)'')]))"
  by (simp add: get_youtube_video_transcript_def lookup_body_def watch_url
      transcript_attempt_def bad_json_env_def blocked_env_def sample_env_def on_success_simps
      get_video_details_def lookup_handlers_def)


section \<open>Properties of the time formatting\<close>

lemma digits_small: "n < 10 \<Longrightarrow> digits n = [digit_char n]"
  by (simp add: digits.simps)

lemma digits_step: "10 \<le> n \<Longrightarrow> digits n = digits (n div 10) @ [digit_char (n mod 10)]"
  by (subst digits.simps) simp

lemma length_digits_ge2: "10 \<le> n \<Longrightarrow> 2 \<le> length (digits n)"
  by (subst digits.simps) (simp add: Suc_le_eq digits.simps [of "n div 10"])

lemma digit_char_0: "digit_char 0 = CHR ''0''"
  by (simp add: digit_char_def)

lemma fmt02d_two:
  assumes "n < 100"
  shows "fmt02d (int n) = [digit_char (n div 10), digit_char (n mod 10)]"
proof (cases "n < 10")
  case True
  then show ?thesis
    by (simp add: fmt02d_def zfill_def digits_small digit_char_0)
next
  case False
  with assms have "digits n = [digit_char (n div 10), digit_char (n mod 10)]"
    by (simp add: digits_step digits_small)
  then show ?thesis
    by (simp add: fmt02d_def zfill_def)
qed

lemma fmt02d_long: "10 \<le> n \<Longrightarrow> fmt02d (int n) = digits n"
  using length_digits_ge2 [of n] by (simp add: fmt02d_def zfill_def)


lemma int_div_mod_clock:
  "int t div 3600 = int (t div 3600)" "int t mod 3600 div 60 = int (t mod 3600 div 60)"
  "int t mod 60 = int (t mod 60)"
  by (simp_all only: of_nat_div of_nat_mod of_nat_numeral)

lemma format_time_int:
  "format_time ios (PInt (int t)) =
     Inr (if t div 3600 = 0
          then fmt02d (int (t mod 3600 div 60)) @ '':'' @ fmt02d (int (t mod 60))
          else fmt02d (int (t div 3600)) @ '':'' @ fmt02d (int (t mod 3600 div 60)) @ '':''
                 @ fmt02d (int (t mod 60)))"
proof -
  have "format_time ios (PInt (int t)) =
     Inr (if int (t div 3600) > 0
          then fmt02d (int (t div 3600)) @ '':'' @ fmt02d (int (t mod 3600 div 60)) @ '':''
                 @ fmt02d (int (t mod 60))
          else fmt02d (int (t mod 3600 div 60)) @ '':'' @ fmt02d (int (t mod 60)))"
    unfolding format_time_def py_int.simps sum.case Let_def int_div_mod_clock ..
  also have "int (t div 3600) > 0 \<longleftrightarrow> t div 3600 \<noteq> 0"
    by (simp only: of_nat_0_less_iff neq0_conv)
  finally show ?thesis
    by (cases "t div 3600 = 0") (simp_all only: if_True if_False not_True_eq_False not_False_eq_True simp_thms)
qed

lemma format_time_float_int:
  "format_time ios (PFloat (Finite x)) = format_time ios (PInt (py_trunc x))"
  by (simp add: format_time_def)

text \<open>
  C4. On a finite float that is not negative, the formatter drops the fractional part
  (the floor, no rounding), takes hours, minutes and seconds by division and remainder
  by 3600 and 60, and writes minutes and seconds as two digits each, after the hours
  when these are not zero; the hours are two digits below 100 and all their digits from
  100 on. So 0 gives \<open>00:00\<close>, 65 gives \<open>01:05\<close>, 3661 gives \<open>01:01:01\<close> and
  59.9 gives \<open>00:59\<close>.
\<close>

theorem format_time_clock:
  "(0 \<le> x \<longrightarrow>
      format_time ios (PFloat (Finite x)) =
        Inr (let t = nat \<lfloor>x\<rfloor>; h = t div 3600; m = t mod 3600 div 60; s = t mod 60
             in if h = 0
                then [digit_char (m div 10), digit_char (m mod 10)] @ '':''
                       @ [digit_char (s div 10), digit_char (s mod 10)]
                else (if h < 100 then [digit_char (h div 10), digit_char (h mod 10)]
                      else digits h) @ '':''
                       @ [digit_char (m div 10), digit_char (m mod 10)] @ '':''
                       @ [digit_char (s div 10), digit_char (s mod 10)]))
   \<and> format_time ios (PFloat (Finite 0)) = Inr ''00:00''
   \<and> format_time ios (PFloat (Finite 65)) = Inr ''01:05''
   \<and> format_time ios (PFloat (Finite 3661)) = Inr ''01:01:01''
   \<and> format_time ios (PFloat (Finite 59.9)) = Inr ''00:59''"
proof (intro conjI impI)
  assume x: "0 \<le> x"
  define t where "t = nat \<lfloor>x\<rfloor>"
  have tr: "py_trunc x = int t"
    using x by (simp add: py_trunc_def t_def)
  have m: "t mod 3600 div 60 < 100" and s: "t mod 60 < 100"
    by simp_all
  have h: "fmt02d (int (t div 3600)) =
      (if t div 3600 < 100
       then [digit_char (t div 3600 div 10), digit_char (t div 3600 mod 10)]
       else digits (t div 3600))"
    by (simp add: fmt02d_two fmt02d_long)
  show "format_time ios (PFloat (Finite x)) =
        Inr (let t = nat \<lfloor>x\<rfloor>; h = t div 3600; m = t mod 3600 div 60; s = t mod 60
             in if h = 0
                then [digit_char (m div 10), digit_char (m mod 10)] @ '':''
                       @ [digit_char (s div 10), digit_char (s mod 10)]
                else (if h < 100 then [digit_char (h div 10), digit_char (h mod 10)]
                      else digits h) @ '':''
                       @ [digit_char (m div 10), digit_char (m mod 10)] @ '':''
                       @ [digit_char (s div 10), digit_char (s mod 10)])"
    unfolding format_time_float_int tr format_time_int Let_def t_def [symmetric]
      fmt02d_two [OF m] fmt02d_two [OF s] h
    by simp
next
  show "format_time ios (PFloat (Finite 0)) = Inr ''00:00''"
    by (simp add: format_time_def py_trunc_def fmt02d_def zfill_def digits.simps digit_char_def)
  show "format_time ios (PFloat (Finite 65)) = Inr ''01:05''"
    by (simp add: format_time_def py_trunc_def fmt02d_def zfill_def digits.simps digit_char_def)
  show "format_time ios (PFloat (Finite 3661)) = Inr ''01:01:01''"
    by (simp add: format_time_def py_trunc_def fmt02d_def zfill_def digits.simps digit_char_def)
  show "format_time ios (PFloat (Finite 59.9)) = Inr ''00:59''"
    by (simp add: format_time_def py_trunc_def fmt02d_def zfill_def digits.simps digit_char_def)
qed

theorem format_time_clock_witness:
  "(0::real) \<le> 7325.5
   \<and> format_time (int_of_str sample_env) (PFloat (Finite 7325.5)) = Inr ''02:02:05''"
proof -
  have a: "(0::real) \<le> 7325.5" by simp
  have fl: "nat \<lfloor>7325.5::real\<rfloor> = 7325" by simp
  from format_time_clock [of "7325.5" "int_of_str sample_env"] a
  have "format_time (int_of_str sample_env) (PFloat (Finite 7325.5)) =
        Inr (let t = nat \<lfloor>7325.5::real\<rfloor>; h = t div 3600; m = t mod 3600 div 60; s = t mod 60
             in if h = 0
                then [digit_char (m div 10), digit_char (m mod 10)] @ '':''
                       @ [digit_char (s div 10), digit_char (s mod 10)]
                else (if h < 100 then [digit_char (h div 10), digit_char (h mod 10)]
                      else digits h) @ '':''
                       @ [digit_char (m div 10), digit_char (m mod 10)] @ '':''
                       @ [digit_char (s div 10), digit_char (s mod 10)])"
    by blast
  then show ?thesis
    unfolding fl by (simp add: digit_char_def)
qed

lemma lex_append_less:
  "length xs = length ys \<Longrightarrow>
   xs @ us < ys @ vs \<longleftrightarrow> xs < ys \<or> xs = ys \<and> us < (vs :: 'a::linorder list)"
  by (induction xs ys rule: list_induct2) auto

lemma lex_append_le:
  "length xs = length ys \<Longrightarrow>
   xs @ us \<le> ys @ vs \<longleftrightarrow> xs < ys \<or> xs = ys \<and> us \<le> (vs :: 'a::linorder list)"
  by (induction xs ys rule: list_induct2) auto

lemma digit_char_code:
  assumes "d < 10"
  shows "(of_char (digit_char d) :: nat) = 48 + d"
proof -
  from assms have "d \<in> {0, 1, 2, 3, 4, 5, 6, 7, 8, 9}"
    by auto
  then show ?thesis
    by (auto simp: digit_char_def)
qed

lemma digit_char_less:
  "a < 10 \<Longrightarrow> b < 10 \<Longrightarrow> digit_char a < digit_char b \<longleftrightarrow> a < b"
  by (simp add: less_char_def digit_char_code)

lemma digit_char_eq:
  "a < 10 \<Longrightarrow> b < 10 \<Longrightarrow> digit_char a = digit_char b \<longleftrightarrow> a = b"
  by (metis digit_char_code add_left_cancel)

lemma length_digits_one: "length (digits n) = 1 \<longleftrightarrow> n < 10"
  using length_digits_ge2 [of n] by (cases "n < 10") (auto simp: digits_small)

lemma digits_inj: "digits m = digits n \<Longrightarrow> m = n"
proof (induction m arbitrary: n rule: digits.induct)
  case (1 m)
  show ?case
  proof (cases "m < 10")
    case True
    with "1.prems" have "n < 10"
      by (metis length_digits_one)
    with True "1.prems" show ?thesis
      by (simp add: digits_small digit_char_eq)
  next
    case False
    with "1.prems" have n: "\<not> n < 10"
      by (metis length_digits_one)
    with False "1.prems" have "digits (m div 10) = digits (n div 10)"
      and "digit_char (m mod 10) = digit_char (n mod 10)"
      by (simp_all add: digits_step)
    with "1.IH" [OF False] have "m div 10 = n div 10" "m mod 10 = n mod 10"
      by (simp_all add: digit_char_eq)
    then show ?thesis
      by (metis div_mult_mod_eq)
  qed
qed

lemma div_mod_10_less:
  "(m::nat) < n \<longleftrightarrow> m div 10 < n div 10 \<or> m div 10 = n div 10 \<and> m mod 10 < n mod 10"
proof -
  have m: "m = 10 * (m div 10) + m mod 10" and n: "n = 10 * (n div 10) + n mod 10"
    by simp_all
  have "m mod 10 < 10" "n mod 10 < 10" by simp_all
  then show ?thesis
    using m n by linarith
qed


lemma digits_less:
  "length (digits m) = length (digits n) \<Longrightarrow> digits m < digits n \<longleftrightarrow> m < n"
proof (induction m arbitrary: n rule: digits.induct)
  case (1 m)
  show ?case
  proof (cases "m < 10")
    case True
    with "1.prems" have "n < 10"
      by (metis length_digits_one)
    with True show ?thesis
      by (simp add: digits_small digit_char_less)
  next
    case False
    with "1.prems" have n: "\<not> n < 10"
      by (metis length_digits_one)
    have dm: "digits m = digits (m div 10) @ [digit_char (m mod 10)]"
      using False by (simp add: digits_step)
    have dn: "digits n = digits (n div 10) @ [digit_char (n mod 10)]"
      using n by (simp add: digits_step)
    from "1.prems" have len: "length (digits (m div 10)) = length (digits (n div 10))"
      unfolding dm dn by simp
    have eq: "digits (m div 10) = digits (n div 10) \<longleftrightarrow> m div 10 = n div 10"
      using digits_inj by auto
    have ih: "digits (m div 10) < digits (n div 10) \<longleftrightarrow> m div 10 < n div 10"
      by (rule "1.IH" [OF False len])
    have last: "[digit_char (m mod 10)] < [digit_char (n mod 10)] \<longleftrightarrow> m mod 10 < n mod 10"
      by (simp add: digit_char_less)
    have "digits m < digits n \<longleftrightarrow>
        digits (m div 10) < digits (n div 10)
        \<or> digits (m div 10) = digits (n div 10) \<and> [digit_char (m mod 10)] < [digit_char (n mod 10)]"
      unfolding dm dn by (rule lex_append_less [OF len])
    also have "\<dots> \<longleftrightarrow> m div 10 < n div 10 \<or> m div 10 = n div 10 \<and> m mod 10 < n mod 10"
      unfolding ih eq last ..
    also have "\<dots> \<longleftrightarrow> m < n"
      by (rule div_mod_10_less [symmetric])
    finally show ?thesis .
  qed
qed

lemma lex_same_prefix_le:
  "xs @ us \<le> xs @ vs \<longleftrightarrow> us \<le> (vs :: 'a::linorder list)"
  by (simp add: lex_append_le)

lemma fmt02d_small: "n < 10 \<Longrightarrow> fmt02d (int n) = [CHR ''0'', digit_char n]"
  by (simp add: fmt02d_def zfill_def digits_small)

lemma length_digits_two: "length (digits n) = 2 \<Longrightarrow> n < 100"
proof -
  assume a: "length (digits n) = 2"
  then have "\<not> n < 10"
    using length_digits_one [of n] by auto
  with a have "length (digits (n div 10)) = 1"
    by (simp add: digits_step)
  then have "n div 10 < 10"
    by (simp only: length_digits_one)
  then show ?thesis
    by linarith
qed

lemma fmt02d_less:
  assumes len: "length (fmt02d (int m)) = length (fmt02d (int n))"
  shows "fmt02d (int m) < fmt02d (int n) \<longleftrightarrow> m < n"
proof -
  consider "m < 10" "n < 10" | "m < 10" "10 \<le> n" | "10 \<le> m" "n < 10" | "10 \<le> m" "10 \<le> n"
    by linarith
  then show ?thesis
  proof cases
    case 1
    then show ?thesis
      by (simp add: fmt02d_small digit_char_less)
  next
    case 2
    with len have "n < 100"
      by (simp add: fmt02d_small fmt02d_long length_digits_two)
    with 2 have "digit_char 0 < digit_char (n div 10)"
      by (simp add: digit_char_less)
    with 2 \<open>n < 100\<close> show ?thesis
      by (simp add: fmt02d_small fmt02d_two digit_char_0)
  next
    case 3
    with len have "m < 100"
      by (simp add: fmt02d_small fmt02d_long length_digits_two)
    with 3 have "digit_char 0 < digit_char (m div 10)"
      by (simp add: digit_char_less)
    with 3 \<open>m < 100\<close> show ?thesis
      by (auto simp: fmt02d_small fmt02d_two digit_char_0)
  next
    case 4
    with len show ?thesis
      by (simp add: fmt02d_long digits_less)
  qed
qed

lemma fmt02d_le:
  assumes len: "length (fmt02d (int m)) = length (fmt02d (int n))"
  shows "fmt02d (int m) \<le> fmt02d (int n) \<longleftrightarrow> m \<le> n"
  using fmt02d_less [of n m] len by (simp add: not_less [symmetric])

lemma length_fmt02d_two: "n < 100 \<Longrightarrow> length (fmt02d (int n)) = 2"
  by (simp add: fmt02d_two)

text \<open>The minutes and seconds of a time below one hour.\<close>

lemma minutes_seconds_le:
  assumes "r \<le> r'" and "r' < 3600"
  shows "fmt02d (int (r div 60)) @ CHR '':'' # fmt02d (int (r mod 60))
           \<le> fmt02d (int (r' div 60)) @ CHR '':'' # fmt02d (int (r' mod 60))"
proof -
  have lm: "length (fmt02d (int (r div 60))) = length (fmt02d (int (r' div 60)))"
    using assms by (simp add: length_fmt02d_two)
  have ls: "length (fmt02d (int (r mod 60))) = length (fmt02d (int (r' mod 60)))"
    by (simp add: length_fmt02d_two)
  have "r = 60 * (r div 60) + r mod 60" "r' = 60 * (r' div 60) + r' mod 60"
    "r mod 60 < 60" "r' mod 60 < 60"
    by simp_all
  with assms(1)
  have "r div 60 < r' div 60 \<or> r div 60 = r' div 60 \<and> r mod 60 \<le> r' mod 60"
    by linarith
  then show ?thesis
  proof
    assume "r div 60 < r' div 60"
    then show ?thesis
      by (simp add: lex_append_le [OF lm] fmt02d_less [OF lm])
  next
    assume "r div 60 = r' div 60 \<and> r mod 60 \<le> r' mod 60"
    then show ?thesis
      by (simp add: lex_same_prefix_le fmt02d_le [OF ls])
  qed
qed


lemma length_fmt02d_ge2: "2 \<le> length (fmt02d (int n))"
  using length_digits_ge2 [of n]
  by (cases "n < 10") (simp_all add: fmt02d_small fmt02d_long)

text \<open>The whole clock string of a number of seconds.\<close>

lemma clock_le:
  assumes le: "t \<le> t'"
    and len: "length (if t div 3600 = 0
          then fmt02d (int (t mod 3600 div 60)) @ '':'' @ fmt02d (int (t mod 60))
          else fmt02d (int (t div 3600)) @ '':'' @ fmt02d (int (t mod 3600 div 60)) @ '':''
                 @ fmt02d (int (t mod 60)))
       = length (if t' div 3600 = 0
          then fmt02d (int (t' mod 3600 div 60)) @ '':'' @ fmt02d (int (t' mod 60))
          else fmt02d (int (t' div 3600)) @ '':'' @ fmt02d (int (t' mod 3600 div 60)) @ '':''
                 @ fmt02d (int (t' mod 60)))"
  shows "(if t div 3600 = 0
          then fmt02d (int (t mod 3600 div 60)) @ '':'' @ fmt02d (int (t mod 60))
          else fmt02d (int (t div 3600)) @ '':'' @ fmt02d (int (t mod 3600 div 60)) @ '':''
                 @ fmt02d (int (t mod 60)))
       \<le> (if t' div 3600 = 0
          then fmt02d (int (t' mod 3600 div 60)) @ '':'' @ fmt02d (int (t' mod 60))
          else fmt02d (int (t' div 3600)) @ '':'' @ fmt02d (int (t' mod 3600 div 60)) @ '':''
                 @ fmt02d (int (t' mod 60)))"
proof -
  define r where "r = t mod 3600"
  define r' where "r' = t' mod 3600"
  have r: "r < 3600" "r' < 3600" "t mod 60 = r mod 60" "t' mod 60 = r' mod 60"
    by (simp_all add: r_def r'_def mod_mod_cancel)
  have dec: "t = 3600 * (t div 3600) + r" "t' = 3600 * (t' div 3600) + r'"
    by (simp_all add: r_def r'_def)
  have l2: "length (fmt02d (int (r div 60))) = 2" "length (fmt02d (int (r mod 60))) = 2"
    "length (fmt02d (int (r' div 60))) = 2" "length (fmt02d (int (r' mod 60))) = 2"
    using r by (simp_all add: length_fmt02d_two)
  consider "t div 3600 = 0" "t' div 3600 = 0" | "t div 3600 = 0" "t' div 3600 \<noteq> 0"
    | "t div 3600 \<noteq> 0" "t div 3600 < t' div 3600"
    | "t div 3600 \<noteq> 0" "t div 3600 = t' div 3600"
    using le dec r(1,2) by linarith
  then show ?thesis
  proof cases
    case 1
    with le dec have "r \<le> r'" by simp
    from minutes_seconds_le [OF this r(2)] 1 show ?thesis
      by (simp add: r r_def [symmetric] r'_def [symmetric])
  next
    case 2
    with len l2 length_fmt02d_ge2 [of "t' div 3600"] show ?thesis
      by (simp add: r r_def [symmetric] r'_def [symmetric])
  next
    case 3
    with le have nz: "t' div 3600 \<noteq> 0" by simp
    with 3 len l2 have lh: "length (fmt02d (int (t div 3600))) = length (fmt02d (int (t' div 3600)))"
      by (simp add: r r_def [symmetric] r'_def [symmetric])
    with 3 nz show ?thesis
      by (simp add: lex_append_le [OF lh] fmt02d_less [OF lh])
  next
    case 4
    with le dec have "r \<le> r'" by simp
    from minutes_seconds_le [OF this r(2)] 4 show ?thesis
      by (simp add: r r_def [symmetric] r'_def [symmetric] lex_same_prefix_le)
  qed
qed

text \<open>
  C5, amended. On a finite float that is not negative the formatter returns a string (it
  raises nothing), and among inputs whose strings have the same length it keeps the
  order: for \<open>a \<le> b\<close> the string of \<open>a\<close> is at or before the string of \<open>b\<close> in the
  order of strings.
\<close>

theorem format_time_order:
  assumes "0 \<le> a" and "a \<le> b"
  shows "\<exists>sa sb. format_time ios (PFloat (Finite a)) = Inr sa
           \<and> format_time ios (PFloat (Finite b)) = Inr sb
           \<and> (length sa = length sb \<longrightarrow> sa \<le> sb)"
proof -
  define t where "t = nat \<lfloor>a\<rfloor>"
  define t' where "t' = nat \<lfloor>b\<rfloor>"
  have tr: "py_trunc a = int t" "py_trunc b = int t'"
    using assms by (simp_all add: py_trunc_def t_def t'_def)
  have le: "t \<le> t'"
    using assms by (simp add: t_def t'_def floor_mono nat_mono)
  show ?thesis
    unfolding format_time_float_int tr format_time_int
    using clock_le [OF le] by blast
qed

theorem format_time_order_witness:
  "(0::real) \<le> 65 \<and> (65::real) \<le> 3599.5
   \<and> format_time (int_of_str sample_env) (PFloat (Finite 65)) = Inr ''01:05''
   \<and> format_time (int_of_str sample_env) (PFloat (Finite 3599.5)) = Inr ''59:59''
   \<and> ''01:05'' \<le> ''59:59''"
proof -
  have a: "(0::real) \<le> 65" and b: "(65::real) \<le> 3599.5"
    by simp_all
  have fa: "format_time (int_of_str sample_env) (PFloat (Finite 65)) = Inr ''01:05''"
    by (simp add: format_time_def py_trunc_def fmt02d_def zfill_def digits.simps digit_char_def)
  have fb: "format_time (int_of_str sample_env) (PFloat (Finite 3599.5)) = Inr ''59:59''"
    by (simp add: format_time_def py_trunc_def fmt02d_def zfill_def digits.simps digit_char_def)
  from format_time_order [OF a b, of "int_of_str sample_env"]
  have "''01:05'' \<le> ''59:59''"
    unfolding fa fb by simp
  with a b fa fb show ?thesis by blast
qed

text \<open>
  C5 as stated fails across the hour: 3599 is below 3600, and \<open>59:59\<close> is after
  \<open>01:00:00\<close>.
\<close>

theorem format_time_order_counterexample:
  "(0::real) \<le> 3599 \<and> (3599::real) \<le> 3600
   \<and> format_time (int_of_str sample_env) (PFloat (Finite 3599)) = Inr ''59:59''
   \<and> format_time (int_of_str sample_env) (PFloat (Finite 3600)) = Inr ''01:00:00''
   \<and> \<not> ''59:59'' \<le> ''01:00:00''"
  by (simp add: format_time_def py_trunc_def fmt02d_def zfill_def digits.simps digit_char_def)

section \<open>Properties of the extraction\<close>

lemma group11_token:
  "11 \<le> length tok \<Longrightarrow> list_all idchar (take 11 tok) \<Longrightarrow>
   group11 (tok @ rest) = Some (take 11 tok)"
  by (simp add: group11_def)

lemma starts_with_append: "starts_with p (p @ t)"
  by (simp add: starts_with_def)

lemma starts_with_simps:
  "starts_with [] s" "\<not> starts_with (a # p) []"
  "starts_with (a # p) (b # s) \<longleftrightarrow> a = b \<and> starts_with p s"
  by (auto simp: starts_with_def)

lemma match_alts_Some: "match_alts ps s = Some g \<Longrightarrow> \<exists>p\<in>set ps. starts_with p s"
  by (induction ps) (auto split: if_splits option.splits)

lemma match1_at_literals:
  "match1_at (''youtube.com/watch?v='' @ t) = group11 t"
  "match1_at (''youtu.be/'' @ t) = group11 t"
  "match1_at (''youtube.com/embed/'' @ t) = group11 t"
  "match1_at (''youtube.com/v/'' @ t) = group11 t"
  "match1_at (''youtube.com/shorts/'' @ t) = group11 t"
  by (simp_all add: match1_at_def alternatives_def starts_with_simps split: option.split)

lemma match1_at_alternative:
  assumes "p \<in> set alternatives"
  shows "match1_at (p @ t) = group11 t"
proof -
  from assms have "p = ''youtube.com/watch?v='' \<or> p = ''youtu.be/''
    \<or> p = ''youtube.com/embed/'' \<or> p = ''youtube.com/v/'' \<or> p = ''youtube.com/shorts/''"
    unfolding alternatives_def by (simp only: set_simps insert_iff empty_iff simp_thms)
  then show ?thesis
    by (elim disjE) (simp_all only: match1_at_literals)
qed

lemma match1_at_head:
  assumes "match1_at s = Some g"
  shows "\<exists>t. s = CHR ''y'' # t"
proof -
  from assms obtain p where "p \<in> set alternatives" "starts_with p s"
    unfolding match1_at_def by (blast dest: match_alts_Some)
  then show ?thesis
    by (cases s) (auto simp: alternatives_def starts_with_simps)
qed

lemma match2_at_head: "match2_at s = Some g \<Longrightarrow> \<exists>t. s = CHR ''y'' # t"
  by (cases s) (auto simp: match2_at_def starts_with_simps split: if_splits)

lemma re_search_skip:
  assumes "\<forall>i<length pre. m (drop i (pre @ s)) = None"
  shows "re_search m (pre @ s) = re_search m s"
  using assms
proof (induction pre)
  case Nil
  then show ?case by simp
next
  case (Cons c pre)
  from Cons.prems have "m ((c # pre) @ s) = None"
    by (metis drop0 length_greater_0_conv list.distinct(1))
  moreover have "\<forall>i<length pre. m (drop i (pre @ s)) = None"
  proof (intro allI impI)
    fix i assume "i < length pre"
    then have "m (drop (Suc i) ((c # pre) @ s)) = None"
      using Cons.prems by (metis Suc_less_eq length_Cons)
    then show "m (drop i (pre @ s)) = None" by simp
  qed
  ultimately show ?case
    using Cons.IH by simp
qed

lemma re_search_head: "m s = Some g \<Longrightarrow> re_search m s = Some g"
  by (cases s) simp_all

lemma re_search_None: "re_search m s = None \<longleftrightarrow> (\<forall>i\<le>length s. m (drop i s) = None)"
proof (induction s)
  case Nil
  then show ?case by simp
next
  case (Cons c s)
  have "(\<forall>i\<le>length (c # s). m (drop i (c # s)) = None)
      \<longleftrightarrow> m (c # s) = None \<and> (\<forall>i\<le>length s. m (drop i s) = None)"
    (is "?L \<longleftrightarrow> ?R")
  proof
    assume l: ?L
    then have "m (drop 0 (c # s)) = None" by blast
    moreover have "m (drop i s) = None" if "i \<le> length s" for i
      using l [rule_format, of "Suc i"] that by simp
    ultimately show ?R by simp
  next
    assume r: ?R
    show ?L
    proof (intro allI impI)
      fix i assume "i \<le> length (c # s)"
      with r show "m (drop i (c # s)) = None"
        by (cases i) simp_all
    qed
  qed
  with Cons.IH show ?case
    by (simp split: option.split)
qed

lemma no_y_no_match:
  assumes "CHR ''y'' \<notin> set pre"
  shows "\<forall>i<length pre. match1_at (drop i (pre @ s)) = None \<and> match2_at (drop i (pre @ s)) = None"
proof (intro allI impI)
  fix i assume i: "i < length pre"
  then have d: "drop i (pre @ s) = pre ! i # drop (Suc i) pre @ s"
    by (simp add: Cons_nth_drop_Suc)
  from i assms have "pre ! i \<noteq> CHR ''y''"
    by (metis nth_mem)
  with d show "match1_at (drop i (pre @ s)) = None \<and> match2_at (drop i (pre @ s)) = None"
    using match1_at_head [of "drop i (pre @ s)"] match2_at_head [of "drop i (pre @ s)"]
    by (metis list.inject not_Some_eq)
qed

lemma not_idchar:
  "\<not> idchar CHR ''?''" "\<not> idchar CHR ''&''" "\<not> idchar (CHR 0x0A)"
  by (simp_all add: idchar_def)

lemma vparam_at_hit:
  "c = CHR ''?'' \<or> c = CHR ''&'' \<Longrightarrow> vparam_at (c # ''v='' @ t) = group11 t"
  by (auto simp: vparam_at_def starts_with_simps)

lemma vparam_at_miss: "c \<noteq> CHR ''?'' \<Longrightarrow> c \<noteq> CHR ''&'' \<Longrightarrow> vparam_at (c # s) = None"
  by (simp add: vparam_at_def)

lemma greedy_skip:
  "c \<noteq> CHR ''?'' \<Longrightarrow> c \<noteq> CHR ''&'' \<Longrightarrow> c \<noteq> CHR 0x0A \<Longrightarrow>
   greedy_vparam (c # s) = greedy_vparam s"
  by (simp add: vparam_at_miss split: option.split)

lemma greedy_skip_all:
  "\<forall>x\<in>set xs. x \<noteq> CHR ''?'' \<and> x \<noteq> CHR ''&'' \<and> x \<noteq> CHR 0x0A \<Longrightarrow>
   greedy_vparam (xs @ s) = greedy_vparam s"
proof (induction xs)
  case Nil
  then show ?case by simp
next
  case (Cons x xs)
  then have "greedy_vparam (x # xs @ s) = greedy_vparam (xs @ s)"
    by (intro greedy_skip) simp_all
  with Cons show ?case by simp
qed

lemma greedy_through:
  "CHR 0x0A \<notin> set mid \<Longrightarrow> greedy_vparam s = Some g \<Longrightarrow> greedy_vparam (mid @ s) = Some g"
  by (induction mid) auto

lemma idchar_plain:
  "list_all idchar tok \<Longrightarrow> \<forall>x\<in>set tok. x \<noteq> CHR ''?'' \<and> x \<noteq> CHR ''&'' \<and> x \<noteq> CHR 0x0A"
  using not_idchar by (auto simp: list_all_iff)

lemma greedy_hit:
  assumes c: "c = CHR ''?'' \<or> c = CHR ''&''" and tok: "list_all idchar tok" "11 \<le> length tok"
    and rest: "greedy_vparam rest = None"
  shows "greedy_vparam (c # ''v='' @ tok @ rest) = Some (take 11 tok)"
proof -
  have "greedy_vparam (tok @ rest) = None"
    using greedy_skip_all [OF idchar_plain [OF tok(1)]] rest by simp
  then have "greedy_vparam (CHR ''='' # tok @ rest) = None"
    by (simp add: vparam_at_miss)
  then have inner: "greedy_vparam (''v='' @ tok @ rest) = None"
    by (simp add: vparam_at_miss)
  from tok(1) have "list_all idchar (take 11 tok)"
    by (auto simp: list_all_iff dest: in_set_takeD)
  with tok(2) have "group11 (tok @ rest) = Some (take 11 tok)"
    by (rule group11_token)
  with vparam_at_hit [OF c, of "tok @ rest"]
  have here: "vparam_at (c # ''v='' @ tok @ rest) = Some (take 11 tok)"
    by simp
  from c have nl: "c \<noteq> CHR 0x0A"
    by auto
  have "greedy_vparam (c # (''v='' @ tok @ rest)) =
      (case greedy_vparam (''v='' @ tok @ rest) of
         Some g \<Rightarrow> Some g
       | None \<Rightarrow> vparam_at (c # (''v='' @ tok @ rest)))"
    using nl by (simp only: greedy_vparam.simps if_False)
  then show ?thesis
    unfolding inner here by simp
qed

lemma match2_at_literal: "match2_at (''youtube.com/'' @ t) = greedy_vparam t"
  by (simp add: match2_at_def starts_with_simps)

lemma first_match_patterns:
  "first_match patterns url =
     (case re_search match1_at url of
        Some g \<Rightarrow> Some g
      | None \<Rightarrow> re_search match2_at url)"
  by (simp add: patterns_def split: option.split)

lemma pattern1_hit:
  assumes p: "p \<in> set alternatives" and tok: "11 \<le> length tok" "list_all idchar (take 11 tok)"
    and first: "\<forall>i<length pre. match1_at (drop i (pre @ p @ tok @ rest)) = None"
  shows "extract_video_id (pre @ p @ tok @ rest) = Inr (take 11 tok)"
proof -
  have "match1_at (p @ tok @ rest) = Some (take 11 tok)"
    using match1_at_alternative [OF p] group11_token [OF tok] by simp
  then have "re_search match1_at (p @ tok @ rest) = Some (take 11 tok)"
    by (rule re_search_head)
  with re_search_skip [OF first]
  have "re_search match1_at (pre @ p @ tok @ rest) = Some (take 11 tok)"
    by simp
  then show ?thesis
    by (simp add: extract_video_id_def first_match_patterns)
qed

lemma pattern2_hit:
  assumes c: "c = CHR ''?'' \<or> c = CHR ''&''" and tok: "11 \<le> length tok" "list_all idchar tok"
    and mid: "CHR 0x0A \<notin> set mid" and rest: "greedy_vparam rest = None"
    and url: "url = pre @ ''youtube.com/'' @ mid @ c # ''v='' @ tok @ rest"
    and no1: "re_search match1_at url = None"
    and first: "\<forall>i<length pre. match2_at (drop i url) = None"
  shows "extract_video_id url = Inr (take 11 tok)"
proof -
  have "greedy_vparam (c # ''v='' @ tok @ rest) = Some (take 11 tok)"
    using c tok(2,1) rest by (rule greedy_hit)
  with mid have "greedy_vparam (mid @ c # ''v='' @ tok @ rest) = Some (take 11 tok)"
    by (rule greedy_through)
  then have "match2_at (''youtube.com/'' @ mid @ c # ''v='' @ tok @ rest) = Some (take 11 tok)"
    by (simp only: match2_at_literal)
  then have "re_search match2_at (''youtube.com/'' @ mid @ c # ''v='' @ tok @ rest)
      = Some (take 11 tok)"
    by (rule re_search_head)
  moreover from first
  have "re_search match2_at (pre @ ''youtube.com/'' @ mid @ c # ''v='' @ tok @ rest)
      = re_search match2_at (''youtube.com/'' @ mid @ c # ''v='' @ tok @ rest)"
    unfolding url by (rule re_search_skip)
  ultimately have "re_search match2_at url = Some (take 11 tok)"
    unfolding url by simp
  with no1 show ?thesis
    by (simp add: extract_video_id_def first_match_patterns)
qed

lemma extract_fails_iff:
  "extract_video_id url = Inl e \<longleftrightarrow>
     e = (ValueError, ''No valid YouTube video ID found in URL'')
     \<and> (\<forall>i\<le>length url. match1_at (drop i url) = None \<and> match2_at (drop i url) = None)"
proof -
  have "extract_video_id url = Inl e \<longleftrightarrow>
     e = (ValueError, ''No valid YouTube video ID found in URL'')
     \<and> re_search match1_at url = None \<and> re_search match2_at url = None"
    by (auto simp: extract_video_id_def first_match_patterns split: option.splits)
  then show ?thesis
    unfolding re_search_None by blast
qed

lemma starts_with_prefix: "starts_with (a @ b) s \<Longrightarrow> starts_with a s"
  unfolding starts_with_def by (metis append_eq_conv_conj take_take append_take_drop_id)

lemma group11_Some: "group11 s = Some g \<Longrightarrow> length g = 11 \<and> list_all idchar g"
  by (auto simp: group11_def split: if_splits)

lemma re_search_Some: "re_search m s = Some g \<Longrightarrow> \<exists>i\<le>length s. m (drop i s) = Some g"
proof (induction s)
  case Nil
  then show ?case by simp
next
  case (Cons c s)
  show ?case
  proof (cases "m (c # s)")
    case (Some h)
    with Cons.prems have "m (drop 0 (c # s)) = Some g" by simp
    then show ?thesis by blast
  next
    case None
    with Cons obtain i where "i \<le> length s" "m (drop i s) = Some g" by auto
    then have "Suc i \<le> length (c # s)" "m (drop (Suc i) (c # s)) = Some g" by simp_all
    then show ?thesis by blast
  qed
qed

lemma match_alts_group: "match_alts ps s = Some g \<Longrightarrow> \<exists>t. group11 t = Some g"
  by (induction ps) (auto split: if_splits option.splits)

lemma vparam_at_group: "vparam_at s = Some g \<Longrightarrow> \<exists>t. group11 t = Some g"
  by (auto simp: vparam_at_def split: list.splits if_splits)

lemma greedy_vparam_group: "greedy_vparam s = Some g \<Longrightarrow> \<exists>t. group11 t = Some g"
  by (induction s) (auto split: if_splits option.splits dest: vparam_at_group)

lemma alternative_host:
  assumes "p \<in> set alternatives" and "starts_with p s"
  shows "starts_with ''youtube.com/'' s \<or> starts_with ''youtu.be/'' s"
proof -
  from assms(1) have "p = ''youtube.com/'' @ ''watch?v='' \<or> p = ''youtu.be/''
    \<or> p = ''youtube.com/'' @ ''embed/'' \<or> p = ''youtube.com/'' @ ''v/''
    \<or> p = ''youtube.com/'' @ ''shorts/''"
    unfolding alternatives_def by (simp only: set_simps insert_iff empty_iff simp_thms append.simps)
  with assms(2) show ?thesis
    by (elim disjE) (blast dest: starts_with_prefix)+
qed

lemma extract_Some:
  assumes "extract_video_id url = Inr g"
  shows "length g = 11 \<and> list_all idchar g
    \<and> (\<exists>i\<le>length url. starts_with ''youtube.com/'' (drop i url)
                     \<or> starts_with ''youtu.be/'' (drop i url))"
proof -
  from assms consider "re_search match1_at url = Some g" | "re_search match2_at url = Some g"
    by (auto simp: extract_video_id_def first_match_patterns split: option.splits)
  then show ?thesis
  proof cases
    case 1
    then obtain i where i: "i \<le> length url" "match1_at (drop i url) = Some g"
      by (blast dest: re_search_Some)
    then obtain p where "p \<in> set alternatives" "starts_with p (drop i url)"
      unfolding match1_at_def by (blast dest: match_alts_Some)
    then have "starts_with ''youtube.com/'' (drop i url) \<or> starts_with ''youtu.be/'' (drop i url)"
      by (rule alternative_host)
    moreover from i(2) obtain t where "group11 t = Some g"
      unfolding match1_at_def by (blast dest: match_alts_group)
    ultimately show ?thesis
      using i(1) group11_Some by blast
  next
    case 2
    then obtain i where i: "i \<le> length url" "match2_at (drop i url) = Some g"
      by (blast dest: re_search_Some)
    then have "starts_with ''youtube.com/'' (drop i url)"
      and "greedy_vparam (drop 12 (drop i url)) = Some g"
      by (simp_all add: match2_at_def split: if_splits)
    then show ?thesis
      using i(1) group11_Some greedy_vparam_group by blast
  qed
qed

lemma no_y_anywhere:
  assumes "CHR ''y'' \<notin> set s"
  shows "\<forall>i\<le>length s. match1_at (drop i s) = None \<and> match2_at (drop i s) = None"
proof (intro allI impI)
  fix i
  have "CHR ''y'' \<notin> set (drop i s)"
    using assms by (blast dest: in_set_dropD)
  then have "\<And>t. drop i s \<noteq> CHR ''y'' # t"
    by (metis list.set_intros(1))
  then show "match1_at (drop i s) = None \<and> match2_at (drop i s) = None"
    using match1_at_head [of "drop i s"] match2_at_head [of "drop i s"]
    by (metis not_Some_eq)
qed

text \<open>
  C1, amended. For a url in which one of \<open>youtube.com/watch?v=\<close>, \<open>youtu.be/\<close>,
  \<open>youtube.com/embed/\<close>, \<open>youtube.com/v/\<close>, \<open>youtube.com/shorts/\<close> is followed by
  an identifier of 11 characters of the class, with no match of the first pattern further
  left, the extraction returns that identifier, whatever the second pattern would find.
  For a url that the first pattern matches nowhere, in which \<open>youtube.com/\<close> is
  followed on the same line by \<open>?v=\<close> or \<open>&v=\<close> and such an identifier, this being the
  leftmost \<open>youtube.com/\<close> that matches and the last such parameter of the line, it
  returns that identifier. It raises the \<^verbatim>\<open>ValueError\<close> exactly when neither pattern
  matches at any position, and so on every url that contains neither \<open>youtube.com/\<close>
  nor \<open>youtu.be/\<close>, whatever \<open>v=\<close> parameter or path it has.
\<close>

theorem extract_video_id_shapes:
  "(p \<in> set alternatives \<and> length vid = 11 \<and> list_all idchar vid
      \<and> (\<forall>i<length pre. match1_at (drop i (pre @ p @ vid @ rest)) = None)
    \<longrightarrow> extract_video_id (pre @ p @ vid @ rest) = Inr vid)
   \<and> ((c = CHR ''?'' \<or> c = CHR ''&'') \<and> length vid = 11 \<and> list_all idchar vid
      \<and> CHR 0x0A \<notin> set mid \<and> greedy_vparam rest' = None
      \<and> url = pre' @ ''youtube.com/'' @ mid @ c # ''v='' @ vid @ rest'
      \<and> (\<forall>i\<le>length url. match1_at (drop i url) = None)
      \<and> (\<forall>i<length pre'. match2_at (drop i url) = None)
    \<longrightarrow> extract_video_id url = Inr vid)
   \<and> (extract_video_id u = Inl e \<longleftrightarrow>
        e = (ValueError, ''No valid YouTube video ID found in URL'')
        \<and> (\<forall>i\<le>length u. match1_at (drop i u) = None \<and> match2_at (drop i u) = None))
   \<and> ((\<forall>i\<le>length u. \<not> starts_with ''youtube.com/'' (drop i u)
                      \<and> \<not> starts_with ''youtu.be/'' (drop i u))
    \<longrightarrow> extract_video_id u = Inl (ValueError, ''No valid YouTube video ID found in URL''))"
proof (intro conjI impI)
  assume a: "p \<in> set alternatives \<and> length vid = 11 \<and> list_all idchar vid
      \<and> (\<forall>i<length pre. match1_at (drop i (pre @ p @ vid @ rest)) = None)"
  then show "extract_video_id (pre @ p @ vid @ rest) = Inr vid"
  proof (elim conjE)
    assume p: "p \<in> set alternatives" and len: "length vid = 11"
      and idc: "list_all idchar vid"
      and first: "\<forall>i<length pre. match1_at (drop i (pre @ p @ vid @ rest)) = None"
    from len idc have "11 \<le> length vid" "list_all idchar (take 11 vid)"
      by simp_all
    from pattern1_hit [OF p this first] len
    show ?thesis by simp
  qed
next
  assume a: "(c = CHR ''?'' \<or> c = CHR ''&'') \<and> length vid = 11 \<and> list_all idchar vid
      \<and> CHR 0x0A \<notin> set mid \<and> greedy_vparam rest' = None
      \<and> url = pre' @ ''youtube.com/'' @ mid @ c # ''v='' @ vid @ rest'
      \<and> (\<forall>i\<le>length url. match1_at (drop i url) = None)
      \<and> (\<forall>i<length pre'. match2_at (drop i url) = None)"
  then show "extract_video_id url = Inr vid"
  proof (elim conjE)
    assume c: "c = CHR ''?'' \<or> c = CHR ''&''" and len: "length vid = 11"
      and idc: "list_all idchar vid" and mid: "CHR 0x0A \<notin> set mid"
      and rest: "greedy_vparam rest' = None"
      and url: "url = pre' @ ''youtube.com/'' @ mid @ c # ''v='' @ vid @ rest'"
      and none1: "\<forall>i\<le>length url. match1_at (drop i url) = None"
      and first: "\<forall>i<length pre'. match2_at (drop i url) = None"
    from none1 have no1: "re_search match1_at url = None"
      unfolding re_search_None .
    from len have "11 \<le> length vid" by simp
    from pattern2_hit [OF c this idc mid rest url no1 first] len
    show ?thesis by simp
  qed
next
  show "extract_video_id u = Inl e \<longleftrightarrow>
        e = (ValueError, ''No valid YouTube video ID found in URL'')
        \<and> (\<forall>i\<le>length u. match1_at (drop i u) = None \<and> match2_at (drop i u) = None)"
    by (rule extract_fails_iff)
next
  assume a: "\<forall>i\<le>length u. \<not> starts_with ''youtube.com/'' (drop i u)
                      \<and> \<not> starts_with ''youtu.be/'' (drop i u)"
  show "extract_video_id u = Inl (ValueError, ''No valid YouTube video ID found in URL'')"
  proof (cases "extract_video_id u")
    case (Inl e)
    then show ?thesis
      by (simp add: extract_fails_iff)
  next
    case (Inr g)
    from extract_Some [OF this] a show ?thesis
      by blast
  qed
qed

text \<open>
  C10. Where the token after one of the five prefixes, or after \<open>?v=\<close> or \<open>&v=\<close>
  behind \<open>youtube.com/\<close>, has more than 11 characters of the class, the extraction does
  not fail: it returns the first 11 characters of the token (under the same conditions on
  the position of the match as above).
\<close>

theorem extract_video_id_long_token:
  "(p \<in> set alternatives \<and> 11 < length tok \<and> list_all idchar tok
      \<and> (\<forall>i<length pre. match1_at (drop i (pre @ p @ tok @ rest)) = None)
    \<longrightarrow> extract_video_id (pre @ p @ tok @ rest) = Inr (take 11 tok))
   \<and> ((c = CHR ''?'' \<or> c = CHR ''&'') \<and> 11 < length tok \<and> list_all idchar tok
      \<and> CHR 0x0A \<notin> set mid \<and> greedy_vparam rest' = None
      \<and> url = pre' @ ''youtube.com/'' @ mid @ c # ''v='' @ tok @ rest'
      \<and> (\<forall>i\<le>length url. match1_at (drop i url) = None)
      \<and> (\<forall>i<length pre'. match2_at (drop i url) = None)
    \<longrightarrow> extract_video_id url = Inr (take 11 tok))"
proof (intro conjI impI)
  assume a: "p \<in> set alternatives \<and> 11 < length tok \<and> list_all idchar tok
      \<and> (\<forall>i<length pre. match1_at (drop i (pre @ p @ tok @ rest)) = None)"
  then show "extract_video_id (pre @ p @ tok @ rest) = Inr (take 11 tok)"
  proof (elim conjE)
    assume p: "p \<in> set alternatives" and len: "11 < length tok"
      and idc: "list_all idchar tok"
      and first: "\<forall>i<length pre. match1_at (drop i (pre @ p @ tok @ rest)) = None"
    from idc have t: "list_all idchar (take 11 tok)"
      by (auto simp: list_all_iff dest: in_set_takeD)
    from len have "11 \<le> length tok" by simp
    from pattern1_hit [OF p this t first] show ?thesis .
  qed
next
  assume a: "(c = CHR ''?'' \<or> c = CHR ''&'') \<and> 11 < length tok \<and> list_all idchar tok
      \<and> CHR 0x0A \<notin> set mid \<and> greedy_vparam rest' = None
      \<and> url = pre' @ ''youtube.com/'' @ mid @ c # ''v='' @ tok @ rest'
      \<and> (\<forall>i\<le>length url. match1_at (drop i url) = None)
      \<and> (\<forall>i<length pre'. match2_at (drop i url) = None)"
  then show "extract_video_id url = Inr (take 11 tok)"
  proof (elim conjE)
    assume c: "c = CHR ''?'' \<or> c = CHR ''&''" and len: "11 < length tok"
      and idc: "list_all idchar tok" and mid: "CHR 0x0A \<notin> set mid"
      and rest: "greedy_vparam rest' = None"
      and url: "url = pre' @ ''youtube.com/'' @ mid @ c # ''v='' @ tok @ rest'"
      and none1: "\<forall>i\<le>length url. match1_at (drop i url) = None"
      and first: "\<forall>i<length pre'. match2_at (drop i url) = None"
    from none1 have no1: "re_search match1_at url = None"
      unfolding re_search_None .
    from len have "11 \<le> length tok" by simp
    from pattern2_hit [OF c this idc mid rest url no1 first]
    show ?thesis .
  qed
qed

lemma id_ok: "length ''dQw4w9WgXcQ'' = 11" "list_all idchar ''dQw4w9WgXcQ''"
  by (simp_all add: idchar_def)

lemma long_ok: "11 < length ''dQw4w9WgXcQextra''" "list_all idchar ''dQw4w9WgXcQextra''"
  "take 11 ''dQw4w9WgXcQextra'' = ''dQw4w9WgXcQ''"
  by (simp_all add: idchar_def)

lemma no_y_prefix: "CHR ''y'' \<notin> set ''https://www.''"
  by simp

lemma playlist_no_pattern1:
  "\<forall>i\<le>length (''https://www.'' @ ''youtube.com/'' @ ''playlist?list=PL1'' @ CHR ''&'' # ''v='' @ tok @ ''#t'').
      match1_at (drop i (''https://www.'' @ ''youtube.com/'' @ ''playlist?list=PL1''
                          @ CHR ''&'' # ''v='' @ tok @ ''#t'')) = None"
  if "CHR ''y'' \<notin> set tok" for tok
proof -
  have "re_search match1_at (''https://www.'' @ ''youtube.com/'' @ ''playlist?list=PL1''
                          @ CHR ''&'' # ''v='' @ tok @ ''#t'') = re_search match1_at (tok @ ''#t'')"
    by (simp add: match1_at_def alternatives_def starts_with_simps)
  also have "\<dots> = None"
    using that no_y_anywhere [of "tok @ ''#t''"] by (simp add: re_search_None)
  finally show ?thesis
    unfolding re_search_None .
qed

theorem extract_video_id_shapes_witness:
  "extract_video_id ''https://www.youtube.com/watch?v=dQw4w9WgXcQ&t=42'' = Inr ''dQw4w9WgXcQ''
   \<and> extract_video_id ''https://www.youtube.com/playlist?list=PL1&v=dQw4w9WgXcQ#t''
       = Inr ''dQw4w9WgXcQ''
   \<and> extract_video_id ''not a url''
       = Inl (ValueError, ''No valid YouTube video ID found in URL'')"
proof -
  have p: "''youtube.com/watch?v='' \<in> set alternatives"
    by (simp add: alternatives_def)
  have f1: "\<forall>i<length ''https://www.''. match1_at (drop i (''https://www.''
        @ ''youtube.com/watch?v='' @ ''dQw4w9WgXcQ'' @ ''&t=42'')) = None"
    using no_y_no_match [OF no_y_prefix] by blast
  have 1: "extract_video_id (''https://www.'' @ ''youtube.com/watch?v='' @ ''dQw4w9WgXcQ''
        @ ''&t=42'') = Inr ''dQw4w9WgXcQ''"
    using extract_video_id_shapes [of "''youtube.com/watch?v=''" "''dQw4w9WgXcQ''"
        "''https://www.''" "''&t=42''"] p id_ok f1
    by blast
  have r: "greedy_vparam ''#t'' = None"
    by (simp add: vparam_at_def)
  have m: "CHR 0x0A \<notin> set ''playlist?list=PL1''"
    by simp
  have n1: "\<forall>i\<le>length (''https://www.'' @ ''youtube.com/'' @ ''playlist?list=PL1''
                   @ CHR ''&'' # ''v='' @ ''dQw4w9WgXcQ'' @ ''#t'').
      match1_at (drop i (''https://www.'' @ ''youtube.com/'' @ ''playlist?list=PL1''
                          @ CHR ''&'' # ''v='' @ ''dQw4w9WgXcQ'' @ ''#t'')) = None"
    by (rule playlist_no_pattern1) simp
  have f2: "\<forall>i<length ''https://www.''. match2_at (drop i (''https://www.'' @ ''youtube.com/''
        @ ''playlist?list=PL1'' @ CHR ''&'' # ''v='' @ ''dQw4w9WgXcQ'' @ ''#t'')) = None"
    using no_y_no_match [OF no_y_prefix] by blast
  have 2: "extract_video_id (''https://www.'' @ ''youtube.com/'' @ ''playlist?list=PL1''
        @ CHR ''&'' # ''v='' @ ''dQw4w9WgXcQ'' @ ''#t'') = Inr ''dQw4w9WgXcQ''"
    using extract_video_id_shapes [where c = "CHR ''&''" and vid = "''dQw4w9WgXcQ''"
        and mid = "''playlist?list=PL1''" and rest' = "''#t''" and pre' = "''https://www.''"
        and url = "''https://www.'' @ ''youtube.com/'' @ ''playlist?list=PL1''
                   @ CHR ''&'' # ''v='' @ ''dQw4w9WgXcQ'' @ ''#t''"]
      id_ok r m n1 f2
    by blast
  have ny: "CHR ''y'' \<notin> set ''not a url''"
    by simp
  have 3: "extract_video_id ''not a url''
       = Inl (ValueError, ''No valid YouTube video ID found in URL'')"
    using extract_video_id_shapes [where u = "''not a url''"
        and e = "(ValueError, ''No valid YouTube video ID found in URL'')"]
      no_y_anywhere [OF ny]
    by blast
  from 1 2 3 show ?thesis
    by simp
qed

text \<open>
  C1 as stated fails on a url of the shape \<open>watch?v=ID\<close>, with a \<open>v=\<close> parameter and
  an identifier of 11 characters of the class, on another host.
\<close>

theorem extract_video_id_host_counterexample:
  "length ''dQw4w9WgXcQ'' = 11 \<and> list_all idchar ''dQw4w9WgXcQ''
   \<and> extract_video_id ''https://example.com/watch?v=dQw4w9WgXcQ''
       = Inl (ValueError, ''No valid YouTube video ID found in URL'')"
  by (simp add: idchar_def extract_video_id_def patterns_def match1_at_def match2_at_def
      alternatives_def starts_with_simps)

theorem extract_video_id_long_token_witness:
  "extract_video_id ''https://www.youtube.com/watch?v=dQw4w9WgXcQextra&t=42''
       = Inr ''dQw4w9WgXcQ''
   \<and> extract_video_id ''https://www.youtube.com/playlist?list=PL1&v=dQw4w9WgXcQextra#t''
       = Inr ''dQw4w9WgXcQ''"
proof -
  have p: "''youtube.com/watch?v='' \<in> set alternatives"
    by (simp add: alternatives_def)
  have f1: "\<forall>i<length ''https://www.''. match1_at (drop i (''https://www.''
        @ ''youtube.com/watch?v='' @ ''dQw4w9WgXcQextra'' @ ''&t=42'')) = None"
    using no_y_no_match [OF no_y_prefix] by blast
  have 1: "extract_video_id (''https://www.'' @ ''youtube.com/watch?v='' @ ''dQw4w9WgXcQextra''
        @ ''&t=42'') = Inr (take 11 ''dQw4w9WgXcQextra'')"
    using extract_video_id_long_token [of "''youtube.com/watch?v=''" "''dQw4w9WgXcQextra''"
        "''https://www.''" "''&t=42''"] p long_ok(1,2) f1
    by blast
  have r: "greedy_vparam ''#t'' = None"
    by (simp add: vparam_at_def)
  have m: "CHR 0x0A \<notin> set ''playlist?list=PL1''"
    by simp
  have n1: "\<forall>i\<le>length (''https://www.'' @ ''youtube.com/'' @ ''playlist?list=PL1''
                   @ CHR ''&'' # ''v='' @ ''dQw4w9WgXcQextra'' @ ''#t'').
      match1_at (drop i (''https://www.'' @ ''youtube.com/'' @ ''playlist?list=PL1''
                          @ CHR ''&'' # ''v='' @ ''dQw4w9WgXcQextra'' @ ''#t'')) = None"
    by (rule playlist_no_pattern1) simp
  have f2: "\<forall>i<length ''https://www.''. match2_at (drop i (''https://www.'' @ ''youtube.com/''
        @ ''playlist?list=PL1'' @ CHR ''&'' # ''v='' @ ''dQw4w9WgXcQextra'' @ ''#t'')) = None"
    using no_y_no_match [OF no_y_prefix] by blast
  have 2: "extract_video_id (''https://www.'' @ ''youtube.com/'' @ ''playlist?list=PL1''
        @ CHR ''&'' # ''v='' @ ''dQw4w9WgXcQextra'' @ ''#t'') = Inr (take 11 ''dQw4w9WgXcQextra'')"
    using extract_video_id_long_token [where c = "CHR ''&''" and tok = "''dQw4w9WgXcQextra''"
        and mid = "''playlist?list=PL1''" and rest' = "''#t''" and pre' = "''https://www.''"
        and url = "''https://www.'' @ ''youtube.com/'' @ ''playlist?list=PL1''
                   @ CHR ''&'' # ''v='' @ ''dQw4w9WgXcQextra'' @ ''#t''"]
      long_ok(1,2) r m n1 f2
    by blast
  from 1 2 show ?thesis
    unfolding long_ok(3) by simp
qed

end
